theory Spec2Isabelle
  imports Main "HOL-Library.Sublist"
begin

section \<open>The spec reporter of src/lib/reporter.js\<close>

text \<open>
  The reporter is a class whose event handlers mutate the fields of \<open>this\<close> and print
  to the console. The embedding passes the mutable fields as a record, returns the
  printed blocks as a list, and turns every \<open>TypeError\<close> and \<open>RangeError\<close> the
  JavaScript can raise into a value. The base reporter (colours, symbols, statistics) and
  the duration humanizer are external: they are parameters.
\<close>

subsection \<open>JavaScript values and string operations\<close>

text \<open>
  A property that may be absent is a \<open>string option\<close>; \<open>None\<close> is \<open>undefined\<close>.
  \<open>to_str\<close> is the conversion a template literal or \<open>+\<close> applies, \<open>truthy\<close>
  the test of \<open>if (x)\<close>, \<open>js_or\<close> the operator \<open>||\<close>.
\<close>

definition nl :: string where
  "nl = [CHR 0x0A]"

definition to_str :: "string option \<Rightarrow> string" where
  "to_str x = (case x of None \<Rightarrow> ''undefined'' | Some v \<Rightarrow> v)"

definition truthy :: "string option \<Rightarrow> bool" where
  "truthy x = (case x of None \<Rightarrow> False | Some v \<Rightarrow> v \<noteq> [])"

definition js_or :: "string option \<Rightarrow> string option \<Rightarrow> string option" where
  "js_or a b = (if truthy a then a else b)"

text \<open>\<open>x || ''\<close>: the value when it is truthy, the empty string otherwise.\<close>

definition or_empty :: "string option \<Rightarrow> string" where
  "or_empty x = (case x of None \<Rightarrow> [] | Some v \<Rightarrow> v)"

text \<open>
  \<open>String.prototype.trim\<close>, on the ASCII white space. The white space beyond ASCII that
  \<open>trim\<close> strips as well (the no-break space, the byte order mark, the other Unicode
  spaces) is not modelled: the labels and descriptors the reporter trims are taken to
  begin and end with ASCII.
\<close>

definition is_space :: "char \<Rightarrow> bool" where
  "is_space c = (c \<in> set [CHR '' '', CHR 0x09, CHR 0x0A, CHR 0x0B, CHR 0x0C, CHR 0x0D])"

definition js_trim :: "string \<Rightarrow> string" where
  "js_trim s = rev (dropWhile is_space (rev (dropWhile is_space s)))"

text \<open>\<open>s.replace(pat, rep)\<close> with a string pattern: the first occurrence only.\<close>

fun replace_first :: "string \<Rightarrow> string \<Rightarrow> string \<Rightarrow> string" where
  "replace_first pat rep [] = (if pat = [] then rep else [])"
| "replace_first pat rep (c # cs) =
     (if prefix pat (c # cs) then rep @ drop (length pat) (c # cs)
      else c # replace_first pat rep cs)"

text \<open>\<open>s.indexOf(pat)\<close>: the first position where \<open>pat\<close> occurs, or \<open>-1\<close>.\<close>

fun indexOf_from :: "string \<Rightarrow> string \<Rightarrow> int \<Rightarrow> int" where
  "indexOf_from [] pat i = (if pat = [] then i else - 1)"
| "indexOf_from (c # cs) pat i =
     (if prefix pat (c # cs) then i else indexOf_from cs pat (i + 1))"

definition indexOf :: "string \<Rightarrow> string \<Rightarrow> int" where
  "indexOf s pat = indexOf_from s pat 0"

text \<open>\<open>xs.join(sep)\<close>.\<close>

fun js_join :: "string \<Rightarrow> string list \<Rightarrow> string" where
  "js_join sep [] = []"
| "js_join sep [x] = x"
| "js_join sep (x # y # ys) = x @ sep @ js_join sep (y # ys)"

text \<open>\<open>s.split(/\n/g)\<close>: the pieces between line feeds; the empty string gives one empty piece.\<close>

fun split_lines :: "string \<Rightarrow> string list" where
  "split_lines [] = [[]]"
| "split_lines (c # cs) =
     (if c = CHR 0x0A then [] # split_lines cs
      else (case split_lines cs of [] \<Rightarrow> [[c]] | l # ls \<Rightarrow> (c # l) # ls))"

text \<open>The decimal numeral of a non-negative integer, as \<open>n + ')'\<close> writes it.\<close>

definition digit_char :: "nat \<Rightarrow> char" where
  "digit_char d = ''0123456789'' ! d"

function string_of_nat :: "nat \<Rightarrow> string" where
  "string_of_nat n =
     (if n < 10 then [digit_char n] else string_of_nat (n div 10) @ [digit_char (n mod 10)])"
  by pat_completeness auto
termination
  by (relation "measure id") auto

declare string_of_nat.simps [simp del]

subsection \<open>Data\<close>

type_synonym cid = string
type_synonym uid = string

datatype error = TypeError | RangeError

text \<open>
  The running indent of a worker is a JavaScript number that \<open>++\<close> and \<open>--\<close> move;
  on a worker that never started they produce \<open>NaN\<close>.
\<close>

datatype depth = Num int | NaN

record counters =
  passing :: nat
  pending :: nat
  failing :: nat

text \<open>The payloads of the events.\<close>

record runner =
  runner_cid :: cid
  runner_specs :: "string list"

record suite =
  suite_cid :: cid
  suite_uid :: uid
  suite_title :: string

record test =
  test_cid :: cid
  test_title :: string
  test_state :: string

record caps =
  deviceName :: "string option"
  browserName :: "string option"
  browser :: "string option"
  version :: "string option"
  platformVersion :: "string option"
  browser_version :: "string option"
  os :: "string option"
  os_version :: "string option"
  platform :: "string option"
  platformName :: "string option"
  app :: "string option"

text \<open>
  What the statistics of the base reporter hold. An object that \<open>for ... in\<close> walks is an
  association list in the order of the walk.
\<close>

record suite_stats =
  stats_title :: string
  stats_tests :: "(uid \<times> test) list"

record spec_stats =
  spec_suites :: "(uid \<times> suite_stats) list"
  spec_duration :: int

record runner_stats =
  capabilities :: caps
  sessionID :: "string option"
  runner_spec_stats :: "(string \<times> spec_stats) list"
  config_host :: "string option"

record failure =
  failure_cid :: cid
  failure_runner :: "cid list"
  failure_parent :: "string option"
  failure_title :: string
  err_message :: string
  err_stack :: "string option"

record stats =
  runners :: "(cid \<times> runner_stats) list"
  getSpecHash :: "runner option \<Rightarrow> string"
  getFailures :: "failure list"

record baseReporter =
  symbols_ok :: string
  color :: "string option \<Rightarrow> string \<Rightarrow> string"
  stats :: stats

record config =
  maxInstances :: "int option"

text \<open>The real-time context \<open>this.context\<close> and the mutable fields of the reporter.\<close>

record rt_context =
  ctx_runner :: "runner option"
  ctx_suite :: "suite option"
  headerPrinted :: bool
  ctx_cid :: "cid option"
  preface :: "string option"

record reporter =
  errorCount :: nat
  indents :: "cid \<rightharpoonup> depth"
  suiteIndents :: "cid \<rightharpoonup> (uid \<rightharpoonup> depth)"
  specs :: "cid \<rightharpoonup> string list"
  results :: "cid \<rightharpoonup> counters"
  context_rt :: rt_context
  realtime :: bool

subsection \<open>The constructor\<close>

text \<open>
  \<open>config\<close> is \<open>undefined\<close> (\<open>None\<close>) or an object; \<open>maxInstances\<close> is absent or a
  number. \<open>headerPrinted\<close> is only ever tested for truth, so its initial \<open>undefined\<close> is
  \<open>False\<close>.
\<close>

definition SpecReporter :: "config option \<Rightarrow> reporter" where
  "SpecReporter cfg =
     \<lparr> errorCount = 0,
       indents = Map.empty,
       suiteIndents = Map.empty,
       specs = Map.empty,
       results = Map.empty,
       context_rt = \<lparr> ctx_runner = None, ctx_suite = None, headerPrinted = False,
                   ctx_cid = None, preface = None \<rparr>,
       realtime = (case cfg of None \<Rightarrow> False | Some c \<Rightarrow> maxInstances c = Some 1) \<rparr>"

subsection \<open>Indent, symbol and colour\<close>

text \<open>
  \<open>indent\<close>: \<open>Array(n).join('    ')\<close> joins \<open>n\<close> empty slots, \<open>Array(undefined)\<close> is an
  array of one \<open>undefined\<close> element, which \<open>join\<close> writes as the empty string, and
  \<open>Array\<close> of a negative number or of \<open>NaN\<close> raises. Worker and suite identifiers are
  taken not to be names that every JavaScript object inherits.
\<close>

definition indent :: "reporter \<Rightarrow> cid \<Rightarrow> uid \<Rightarrow> error + string" where
  "indent s c u =
     (case suiteIndents s c of
        None \<Rightarrow> Inl TypeError
      | Some m \<Rightarrow>
          (case m u of
             None \<Rightarrow> Inr (js_join ''    '' [[]])
           | Some NaN \<Rightarrow> Inl RangeError
           | Some (Num d) \<Rightarrow>
               if d = 0 then Inr []
               else if d < 0 then Inl RangeError
               else Inr (js_join ''    '' (replicate (nat d) []))))"

definition getSymbol :: "baseReporter \<Rightarrow> string \<Rightarrow> reporter \<Rightarrow> string \<times> reporter" where
  "getSymbol br state s =
     (if state = ''pass'' then (symbols_ok br, s)
      else if state = ''pending'' then (''-'', s)
      else if state = ''fail'' then
        (let s' = s\<lparr>errorCount := errorCount s + 1\<rparr>
         in (string_of_nat (errorCount s') @ '')'', s'))
      else (''?'', s))"

definition getColor :: "string \<Rightarrow> string option" where
  "getColor state =
     (if state = ''pass'' \<or> state = ''passing'' then Some ''green''
      else if state = ''pending'' then Some ''pending''
      else if state = ''fail'' \<or> state = ''failing'' then Some ''fail''
      else None)"

subsection \<open>The environment descriptor\<close>

definition getBrowserCombo :: "caps \<Rightarrow> bool \<Rightarrow> string" where
  "getBrowserCombo c verbose =
     (let device = deviceName c;
          brows = js_or (browserName c) (browser c);
          vers = js_or (js_or (version c) (platformVersion c)) (browser_version c);
          plat = (if truthy (os c) then Some (to_str (os c) @ '' '' @ to_str (os_version c))
                  else js_or (platform c) (platformName c))
      in if truthy device then
           (let program = js_or (Some (replace_first ''sauce-storage:'' [] (or_empty (app c))))
                            (browserName c);
                executing = (if truthy program then ''executing '' @ to_str program else [])
            in if \<not> verbose then to_str device @ '' '' @ to_str plat @ '' '' @ to_str vers
               else js_trim (to_str device @ '' on '' @ to_str plat @ '' '' @ to_str vers
                             @ '' '' @ executing))
         else if \<not> verbose then
           js_trim (to_str brows @ '' '' @ or_empty vers @ '' '' @ or_empty plat)
         else to_str brows
              @ (if truthy vers then '' (v'' @ to_str vers @ '')'' else [])
              @ (if truthy plat then '' on '' @ to_str plat else []))"

subsection \<open>Text builders\<close>

text \<open>
  A builder that reads or writes the reporter returns its text, or the error raised, and
  the reporter as it is at the return or at the throw.
\<close>

definition getTestResult ::
  "baseReporter \<Rightarrow> cid \<Rightarrow> uid \<Rightarrow> test \<Rightarrow> string option \<Rightarrow> reporter \<Rightarrow> (error + string) \<times> reporter" where
  "getTestResult br c u t pre s =
     (case indent s c u of
        Inl e \<Rightarrow> (Inl e, s)
      | Inr ind \<Rightarrow>
          (let col = getColor (test_state t);
               (sym, s') = getSymbol br (test_state t) s
           in (Inr (to_str pre @ ''   '' @ ind @ color br col sym @ '' '' @ test_title t), s')))"

text \<open>The marker of a before-all hook, \<open>"before all"\<close> with its double quotes.\<close>

definition before_all :: string where
  "before_all = CHR 0x22 # ''before all'' @ [CHR 0x22]"

text \<open>The inner loop of \<open>getResultList\<close>, over the tests of one suite.\<close>

fun getResultList_tests ::
  "baseReporter \<Rightarrow> cid \<Rightarrow> uid \<Rightarrow> string \<Rightarrow> (uid \<times> test) list \<Rightarrow> string \<Rightarrow> reporter
     \<Rightarrow> (error + string) \<times> reporter" where
  "getResultList_tests br c u pre [] output s = (Inr output, s)"
| "getResultList_tests br c u pre ((testUid, t) # ts) output s =
     (if test_state t = [] then getResultList_tests br c u pre ts output s
      else (case getTestResult br c u t (Some pre) s of
              (Inl e, s') \<Rightarrow> (Inl e, s')
            | (Inr line, s') \<Rightarrow> getResultList_tests br c u pre ts (output @ line @ nl) s'))"

text \<open>The outer loop, over the suites in the order of the walk.\<close>

fun getResultList_suites ::
  "baseReporter \<Rightarrow> cid \<Rightarrow> string \<Rightarrow> (uid \<times> suite_stats) list \<Rightarrow> string \<Rightarrow> reporter
     \<Rightarrow> (error + string) \<times> reporter" where
  "getResultList_suites br c pre [] output s = (Inr output, s)"
| "getResultList_suites br c pre ((specUid, spec) # rest) output s =
     (if indexOf specUid before_all = 0 then getResultList_suites br c pre rest output s
      else (case indent s c specUid of
              Inl e \<Rightarrow> (Inl e, s)
            | Inr ind \<Rightarrow>
                (let output1 = (if indexOf specUid before_all \<noteq> 0
                                then output @ pre @ '' '' @ ind @ stats_title spec @ nl
                                else output)
                 in case getResultList_tests br c specUid pre (stats_tests spec) output1 s of
                      (Inl e, s') \<Rightarrow> (Inl e, s')
                    | (Inr output2, s') \<Rightarrow>
                        getResultList_suites br c pre rest (output2 @ js_trim pre @ nl) s')))"

text \<open>A parameter with the default \<open>''\<close> takes it when the argument is \<open>undefined\<close>.\<close>

definition getResultList ::
  "baseReporter \<Rightarrow> cid \<Rightarrow> (uid \<times> suite_stats) list \<Rightarrow> string option \<Rightarrow> reporter
     \<Rightarrow> (error + string) \<times> reporter" where
  "getResultList br c suites pre s = getResultList_suites br c (or_empty pre) suites [] s"

definition getSuiteHeader :: "suite \<Rightarrow> reporter \<Rightarrow> error + string" where
  "getSuiteHeader su s =
     (case indent s (to_str (ctx_cid (context_rt s))) (suite_uid su) of
        Inl e \<Rightarrow> Inl e
      | Inr ind \<Rightarrow>
          Inr (to_str (preface (context_rt s)) @ '' '' @ nl
               @ to_str (preface (context_rt s)) @ '' '' @ ind @ suite_title su))"

text \<open>
  \<open>getSummary\<close> walks the properties of the counters object in their insertion order;
  \<open>for ... in\<close> over \<open>undefined\<close> walks nothing.
\<close>

definition entries :: "counters \<Rightarrow> (string \<times> nat) list" where
  "entries r = [(''passing'', passing r), (''pending'', pending r), (''failing'', failing r)]"

definition states_of :: "counters option \<Rightarrow> (string \<times> nat) list" where
  "states_of r = (case r of None \<Rightarrow> [] | Some v \<Rightarrow> entries v)"

fun getSummary_loop ::
  "baseReporter \<Rightarrow> (int \<Rightarrow> string) \<Rightarrow> int \<Rightarrow> string \<Rightarrow> (string \<times> nat) list \<Rightarrow> string \<Rightarrow> bool
     \<Rightarrow> string" where
  "getSummary_loop br hz duration pre [] output displayedDuration = output"
| "getSummary_loop br hz duration pre ((state, testCount) # rest) output displayedDuration =
     (if testCount = 0 then getSummary_loop br hz duration pre rest output displayedDuration
      else (let testDuration = (if \<not> displayedDuration then '' ('' @ hz duration @ '')'' else [])
            in getSummary_loop br hz duration pre rest
                 (output @ pre @ '' ''
                  @ color br (getColor state) (string_of_nat testCount)
                  @ '' '' @ color br (getColor state) state
                  @ testDuration @ nl)
                 True))"

definition getSummary ::
  "baseReporter \<Rightarrow> (int \<Rightarrow> string) \<Rightarrow> (string \<times> nat) list \<Rightarrow> int \<Rightarrow> string option \<Rightarrow> string" where
  "getSummary br hz states duration pre =
     getSummary_loop br hz duration (or_empty pre) states [] False"

fun getFailureList_loop :: "baseReporter \<Rightarrow> string \<Rightarrow> failure list \<Rightarrow> nat \<Rightarrow> string \<Rightarrow> string" where
  "getFailureList_loop br pre [] i output = output"
| "getFailureList_loop br pre (t # ts) i output =
     (let title = (case failure_parent t of
                     None \<Rightarrow> failure_title t
                   | Some p \<Rightarrow> p @ '' '' @ failure_title t);
          o1 = output @ js_trim pre @ nl;
          o2 = o1 @ pre @ '' ''
               @ color br (Some ''error title'') (string_of_nat (i + 1) @ '') '' @ title @ '':'') @ nl;
          o3 = o2 @ pre @ '' '' @ color br (Some ''error message'') (err_message t) @ nl;
          o4 = (if truthy (err_stack t)
                then o3 @ js_join nl
                            (map (\<lambda>l. pre @ '' '' @ color br (Some ''error stack'') l)
                                 (split_lines (to_str (err_stack t)))) @ nl
                else o3 @ pre @ '' '' @ color br (Some ''error stack'') ''no stack available'' @ nl)
      in getFailureList_loop br pre ts (i + 1) o4)"

definition getFailureList :: "baseReporter \<Rightarrow> failure list \<Rightarrow> string \<Rightarrow> string" where
  "getFailureList br failures pre = getFailureList_loop br pre failures 0 []"

definition getJobLink :: "runner_stats \<Rightarrow> string \<Rightarrow> string" where
  "getJobLink rs pre =
     (if \<not> truthy (config_host rs) then []
      else if indexOf (to_str (config_host rs)) ''saucelabs.com'' > - 1
      then js_trim pre @ nl
           @ pre @ '' Check out job at https://saucelabs.com/tests/'' @ to_str (sessionID rs) @ nl
      else [])"

text \<open>An array in a template literal is its elements joined by commas.\<close>

definition specs_str :: "string list option \<Rightarrow> string" where
  "specs_str x = (case x of None \<Rightarrow> ''undefined'' | Some xs \<Rightarrow> js_join '','' xs)"

definition rule_line :: string where
  "rule_line = ''------------------------------------------------------------------''"

text \<open>
  \<open>getHeader\<close> writes \<open>context.cid\<close> first, looks the worker up in the statistics, and
  writes \<open>context.preface\<close>. On an \<open>undefined\<close> runner the first line raises.
\<close>

definition getHeader :: "baseReporter \<Rightarrow> runner option \<Rightarrow> reporter \<Rightarrow> (error + string) \<times> reporter" where
  "getHeader br ro s =
     (case ro of
        None \<Rightarrow> (Inl TypeError, s)
      | Some r \<Rightarrow>
          (let s1 = s\<lparr>context_rt := (context_rt s)\<lparr>ctx_cid := Some (runner_cid r)\<rparr>\<rparr>
           in case map_of (runners (stats br)) (runner_cid r) of
                None \<Rightarrow> (Inl TypeError, s1)
              | Some rs \<Rightarrow>
                  (let p = ''['' @ getBrowserCombo (capabilities rs) False
                           @ '' #'' @ runner_cid r @ '']'';
                       s2 = s1\<lparr>context_rt := (context_rt s1)\<lparr>preface := Some p\<rparr>\<rparr>;
                       combo = getBrowserCombo (capabilities rs) True
                   in (Inr (rule_line @ nl
                            @ p @ '' Session ID: '' @ to_str (sessionID rs) @ nl
                            @ p @ '' Spec: '' @ specs_str (specs s2 (runner_cid r)) @ nl
                            @ p @ '' Running: '' @ combo),
                       s2))))"

definition getSuiteResult ::
  "baseReporter \<Rightarrow> (int \<Rightarrow> string) \<Rightarrow> runner \<Rightarrow> reporter \<Rightarrow> (error + string) \<times> reporter" where
  "getSuiteResult br hz r s =
     (let c = runner_cid r
      in case map_of (runners (stats br)) c of
           None \<Rightarrow> (Inl TypeError, s)
         | Some rs \<Rightarrow>
             (let pre = ''['' @ getBrowserCombo (capabilities rs) False @ '' #'' @ c @ '']'';
                  specHash = getSpecHash (stats br) (Some r);
                  failures = filter (\<lambda>f. failure_cid f = c \<or> c \<in> set (failure_runner f))
                               (getFailures (stats br))
              in case map_of (runner_spec_stats rs) specHash of
                   None \<Rightarrow> (Inl TypeError, s)
                 | Some spec \<Rightarrow>
                     if length (spec_suites spec) = 0 then (Inr [], s)
                     else
                       (let s0 = s\<lparr>errorCount := 0\<rparr>
                        in case getHeader br (Some r) s0 of
                             (Inl e, s1) \<Rightarrow> (Inl e, s1)
                           | (Inr header, s1) \<Rightarrow>
                               (case getResultList br c (spec_suites spec) (Some pre) s1 of
                                  (Inl e, s2) \<Rightarrow> (Inl e, s2)
                                | (Inr resultList, s2) \<Rightarrow>
                                    (Inr (header @ nl @ pre @ nl
                                          @ resultList
                                          @ pre @ nl
                                          @ getSummary br hz (states_of (results s2 c))
                                              (spec_duration spec) (Some pre)
                                          @ getFailureList br failures pre
                                          @ getJobLink rs pre
                                          @ pre @ nl),
                                     s2)))))"

text \<open>\<open>getSummaryFooter\<close> reads the reporter and writes nothing.\<close>

definition getSummaryFooter ::
  "baseReporter \<Rightarrow> (int \<Rightarrow> string) \<Rightarrow> runner \<Rightarrow> reporter \<Rightarrow> error + string" where
  "getSummaryFooter br hz r s =
     (case map_of (runners (stats br)) (runner_cid r) of
        None \<Rightarrow> Inl TypeError
      | Some rs \<Rightarrow>
          (case map_of (runner_spec_stats rs) (getSpecHash (stats br) (ctx_runner (context_rt s))) of
             None \<Rightarrow> Inl TypeError
           | Some spec \<Rightarrow>
               (let p = preface (context_rt s)
                in Inr (to_str p @ nl @ to_str p @ nl
                        @ getSummary br hz (states_of (results s (runner_cid r)))
                            (spec_duration spec) p
                        @ to_str p @ nl))))"

definition getSuitesSummary :: "nat \<Rightarrow> string" where
  "getSuitesSummary specCount =
     nl @ nl @ ''=================================================================='' @ nl
     @ ''Number of specs: '' @ string_of_nat specCount"

subsection \<open>Printing and the event handlers\<close>

text \<open>
  What reaches the console: the blocks \<open>console.log\<close> writes and the call of the base
  reporter's epilogue. A handler gives back the reporter after it, what it printed, and
  the error it raised, if any; a handler that raises leaves the reporter as it was mutated
  up to the throw.
\<close>

datatype printed = Log string | Epilogue

type_synonym outcome = "reporter \<times> printed list \<times> error option"

definition printHeader :: "baseReporter \<Rightarrow> runner option \<Rightarrow> reporter \<Rightarrow> outcome" where
  "printHeader br ro s =
     (let s1 = s\<lparr>context_rt := (context_rt s)\<lparr>headerPrinted := True\<rparr>\<rparr>
      in case getHeader br ro s1 of
           (Inl e, s2) \<Rightarrow> (s2, [], Some e)
         | (Inr txt, s2) \<Rightarrow> (s2, [Log txt], None))"

definition printSuiteHeader :: "suite \<Rightarrow> reporter \<Rightarrow> outcome" where
  "printSuiteHeader su s =
     (case getSuiteHeader su s of
        Inl e \<Rightarrow> (s, [], Some e)
      | Inr txt \<Rightarrow> (s, [Log txt], None))"

definition printTestResult :: "baseReporter \<Rightarrow> suite option \<Rightarrow> test \<Rightarrow> reporter \<Rightarrow> outcome" where
  "printTestResult br so t s =
     (case so of
        None \<Rightarrow> (s, [], Some TypeError)
      | Some su \<Rightarrow>
          (case getTestResult br (suite_cid su) (suite_uid su) t (preface (context_rt s)) s of
             (Inl e, s') \<Rightarrow> (s', [], Some e)
           | (Inr txt, s') \<Rightarrow> (s', [Log txt], None)))"

definition printSummaryFooter :: "baseReporter \<Rightarrow> (int \<Rightarrow> string) \<Rightarrow> runner \<Rightarrow> reporter \<Rightarrow> outcome" where
  "printSummaryFooter br hz r s =
     (case getSummaryFooter br hz r s of
        Inl e \<Rightarrow> (s, [], Some e)
      | Inr txt \<Rightarrow> (s, [Log txt], None))"

definition printSuiteResult :: "baseReporter \<Rightarrow> (int \<Rightarrow> string) \<Rightarrow> runner \<Rightarrow> reporter \<Rightarrow> outcome" where
  "printSuiteResult br hz r s =
     (case getSuiteResult br hz r s of
        (Inl e, s') \<Rightarrow> (s', [], Some e)
      | (Inr txt, s') \<Rightarrow> (s', [Log txt], None))"

text \<open>\<open>Object.keys(stats.runners).length\<close>: the number of distinct worker identifiers.\<close>

definition printSuitesSummary :: "baseReporter \<Rightarrow> printed list" where
  "printSuitesSummary br =
     (let specCount = length (remdups (map fst (runners (stats br))))
      in if specCount = 1 then [] else [Log (getSuitesSummary specCount), Epilogue])"

text \<open>\<open>++\<close> and \<open>--\<close> on a property that may be missing.\<close>

definition incr :: "depth option \<Rightarrow> depth" where
  "incr x = (case x of Some (Num n) \<Rightarrow> Num (n + 1) | _ \<Rightarrow> NaN)"

definition decr :: "depth option \<Rightarrow> depth" where
  "decr x = (case x of Some (Num n) \<Rightarrow> Num (n - 1) | _ \<Rightarrow> NaN)"

definition on_runner_start :: "runner \<Rightarrow> reporter \<Rightarrow> outcome" where
  "on_runner_start r s =
     (let s1 = s\<lparr> suiteIndents := (suiteIndents s)(runner_cid r \<mapsto> Map.empty),
                  indents := (indents s)(runner_cid r \<mapsto> Num 0),
                  specs := (specs s)(runner_cid r \<mapsto> runner_specs r),
                  results := (results s)(runner_cid r \<mapsto> \<lparr>passing = 0, pending = 0, failing = 0\<rparr>) \<rparr>
      in if realtime s1
         then (s1\<lparr>context_rt := (context_rt s1)\<lparr>ctx_runner := Some r, headerPrinted := False\<rparr>\<rparr>,
               [], None)
         else (s1, [], None))"

text \<open>
  \<open>suite:start\<close>. A suite of a worker that never started finds no indent map and the
  assignment raises; by then the right-hand side \<open>++this.indents[cid]\<close> has run and has
  written the counter (\<open>NaN\<close> where there was none).
\<close>

definition on_suite_start :: "baseReporter \<Rightarrow> suite \<Rightarrow> reporter \<Rightarrow> outcome" where
  "on_suite_start br su s =
     (case suiteIndents s (suite_cid su) of
        None \<Rightarrow>
          (s\<lparr>indents := (indents s)(suite_cid su \<mapsto> incr (indents s (suite_cid su)))\<rparr>,
           [], Some TypeError)
      | Some m \<Rightarrow>
          (let d = incr (indents s (suite_cid su));
               s1 = s\<lparr> indents := (indents s)(suite_cid su \<mapsto> d),
                       suiteIndents := (suiteIndents s)(suite_cid su \<mapsto> m(suite_uid su \<mapsto> d)) \<rparr>
           in if realtime s1 then
                (let s2 = s1\<lparr>context_rt := (context_rt s1)\<lparr>ctx_suite := Some su\<rparr>\<rparr>
                 in if \<not> headerPrinted (context_rt s2) then
                      (case printHeader br (ctx_runner (context_rt s2)) s2 of
                         (s3, out, Some e) \<Rightarrow> (s3, out, Some e)
                       | (s3, out, None) \<Rightarrow>
                           (let s4 = s3\<lparr>context_rt := (context_rt s3)\<lparr>headerPrinted := True\<rparr>\<rparr>
                            in case printSuiteHeader su s4 of
                                 (s5, out', err) \<Rightarrow> (s5, out @ out', err)))
                    else printSuiteHeader su s2)
              else (s1, [], None)))"

definition on_test_pending :: "baseReporter \<Rightarrow> test \<Rightarrow> reporter \<Rightarrow> outcome" where
  "on_test_pending br t s =
     (case results s (test_cid t) of
        None \<Rightarrow> (s, [], Some TypeError)
      | Some r \<Rightarrow>
          (let s1 = s\<lparr>results := (results s)(test_cid t \<mapsto> r\<lparr>pending := pending r + 1\<rparr>)\<rparr>
           in if realtime s1
              then printTestResult br (ctx_suite (context_rt s1)) (t\<lparr>test_state := ''pending''\<rparr>) s1
              else (s1, [], None)))"

definition on_test_pass :: "baseReporter \<Rightarrow> test \<Rightarrow> reporter \<Rightarrow> outcome" where
  "on_test_pass br t s =
     (case results s (test_cid t) of
        None \<Rightarrow> (s, [], Some TypeError)
      | Some r \<Rightarrow>
          (let s1 = s\<lparr>results := (results s)(test_cid t \<mapsto> r\<lparr>passing := passing r + 1\<rparr>)\<rparr>
           in if realtime s1
              then printTestResult br (ctx_suite (context_rt s1)) (t\<lparr>test_state := ''pass''\<rparr>) s1
              else (s1, [], None)))"

definition on_test_fail :: "baseReporter \<Rightarrow> test \<Rightarrow> reporter \<Rightarrow> outcome" where
  "on_test_fail br t s =
     (case results s (test_cid t) of
        None \<Rightarrow> (s, [], Some TypeError)
      | Some r \<Rightarrow>
          (let s1 = s\<lparr>results := (results s)(test_cid t \<mapsto> r\<lparr>failing := failing r + 1\<rparr>)\<rparr>
           in if realtime s1
              then printTestResult br (ctx_suite (context_rt s1)) (t\<lparr>test_state := ''fail''\<rparr>) s1
              else (s1, [], None)))"

definition on_suite_end :: "suite \<Rightarrow> reporter \<Rightarrow> outcome" where
  "on_suite_end su s =
     (let s1 = s\<lparr>indents := (indents s)(suite_cid su \<mapsto> decr (indents s (suite_cid su)))\<rparr>
      in if realtime s1
         then (s1\<lparr>context_rt := (context_rt s1)\<lparr>ctx_suite := None\<rparr>\<rparr>, [], None)
         else (s1, [], None))"

definition on_runner_end :: "baseReporter \<Rightarrow> (int \<Rightarrow> string) \<Rightarrow> runner \<Rightarrow> reporter \<Rightarrow> outcome" where
  "on_runner_end br hz r s =
     (if \<not> realtime s then printSuiteResult br hz r s
      else
        (case map_of (runners (stats br)) (runner_cid r) of
           None \<Rightarrow> (s, [], Some TypeError)
         | Some rs \<Rightarrow>
             (case map_of (runner_spec_stats rs) (getSpecHash (stats br) (ctx_runner (context_rt s))) of
                None \<Rightarrow> (s, [], Some TypeError)
              | Some spec \<Rightarrow>
                  (let p = preface (context_rt s)
                   in (s,
                       [Log (to_str p @ nl @ to_str p @ nl
                             @ getSummary br hz (states_of (results s (runner_cid r)))
                                 (spec_duration spec) p
                             @ to_str p @ nl)],
                       None)))))"

definition on_end :: "baseReporter \<Rightarrow> reporter \<Rightarrow> outcome" where
  "on_end br s = (s, printSuitesSummary br, None)"

subsection \<open>The reaction table\<close>

datatype event =
    RunnerStart runner
  | SuiteStart suite
  | TestPending test
  | TestPass test
  | TestFail test
  | SuiteEnd suite
  | RunnerEnd runner
  | End

fun dispatch :: "baseReporter \<Rightarrow> (int \<Rightarrow> string) \<Rightarrow> reporter \<Rightarrow> event \<Rightarrow> outcome" where
  "dispatch br hz s (RunnerStart r) = on_runner_start r s"
| "dispatch br hz s (SuiteStart su) = on_suite_start br su s"
| "dispatch br hz s (TestPending t) = on_test_pending br t s"
| "dispatch br hz s (TestPass t) = on_test_pass br t s"
| "dispatch br hz s (TestFail t) = on_test_fail br t s"
| "dispatch br hz s (SuiteEnd su) = on_suite_end su s"
| "dispatch br hz s (RunnerEnd r) = on_runner_end br hz r s"
| "dispatch br hz s End = on_end br s"

text \<open>
  A run delivers the events in order, each with the base reporter as it stands when the
  event arrives (its statistics grow during the run). The reporter after an event is the
  one its handler left, also when the handler raised.
\<close>

fun run :: "(int \<Rightarrow> string) \<Rightarrow> reporter \<Rightarrow> (baseReporter \<times> event) list \<Rightarrow> reporter" where
  "run hz s [] = s"
| "run hz s ((br, e) # evs) = run hz (fst (dispatch br hz s e)) evs"

subsection \<open>Notions the properties are stated with\<close>

text \<open>Calling \<open>getSymbol\<close> once for each state of a list, in order.\<close>

fun getSymbols :: "baseReporter \<Rightarrow> string list \<Rightarrow> reporter \<Rightarrow> string list \<times> reporter" where
  "getSymbols br [] s = ([], s)"
| "getSymbols br (st # sts) s =
     (let (g, s1) = getSymbol br st s;
          (gs, s2) = getSymbols br sts s1
      in (g # gs, s2))"

text \<open>
  The summary block as the specification words it: one line for each state with a
  non-zero count, the first of them carrying the duration.
\<close>

definition summary_line ::
  "baseReporter \<Rightarrow> (int \<Rightarrow> string) \<Rightarrow> int \<Rightarrow> string \<Rightarrow> bool \<Rightarrow> string \<times> nat \<Rightarrow> string" where
  "summary_line br hz duration pre with_duration e =
     pre @ '' '' @ color br (getColor (fst e)) (string_of_nat (snd e))
     @ '' '' @ color br (getColor (fst e)) (fst e)
     @ (if with_duration then '' ('' @ hz duration @ '')'' else []) @ nl"

definition summary_spec ::
  "baseReporter \<Rightarrow> (int \<Rightarrow> string) \<Rightarrow> (string \<times> nat) list \<Rightarrow> int \<Rightarrow> string \<Rightarrow> string" where
  "summary_spec br hz states duration pre =
     (case filter (\<lambda>e. snd e \<noteq> 0) states of
        [] \<Rightarrow> []
      | e # es \<Rightarrow> summary_line br hz duration pre True e
                 @ concat (map (summary_line br hz duration pre False) es))"

text \<open>The capability record of the mobile example.\<close>

definition iphone_caps :: caps where
  "iphone_caps =
     \<lparr> deviceName = Some ''iPhone'', browserName = Some ''Safari'', browser = None,
       version = None, platformVersion = None, browser_version = None,
       os = Some ''iOS'', os_version = Some ''15'', platform = None, platformName = None,
       app = None \<rparr>"

text \<open>
  A base reporter for the examples: no colours, the word \<open>ok\<close> for the check mark, a duration
  written in milliseconds, and the statistics of the given workers.
\<close>

definition example_base :: "(cid \<times> runner_stats) list \<Rightarrow> baseReporter" where
  "example_base rs =
     \<lparr> symbols_ok = ''ok'', color = (\<lambda>c txt. txt),
       stats = \<lparr> runners = rs, getSpecHash = (\<lambda>r. ''hash''), getFailures = [] \<rparr> \<rparr>"

definition example_humanizer :: "int \<Rightarrow> string" where
  "example_humanizer d = string_of_nat (nat d) @ ''ms''"

text \<open>
  What the text builders leave alone: the per-worker maps, the mode flag, and the parts of
  the real-time context that only the handlers write.
\<close>

definition builder_frame :: "reporter \<Rightarrow> reporter \<Rightarrow> bool" where
  "builder_frame s s' =
     (indents s' = indents s \<and> suiteIndents s' = suiteIndents s \<and> specs s' = specs s
      \<and> results s' = results s \<and> realtime s' = realtime s
      \<and> ctx_runner (context_rt s') = ctx_runner (context_rt s)
      \<and> ctx_suite (context_rt s') = ctx_suite (context_rt s)
      \<and> headerPrinted (context_rt s') = headerPrinted (context_rt s))"

text \<open>Nothing but the error counter differs.\<close>

definition only_counter :: "reporter \<Rightarrow> reporter \<Rightarrow> bool" where
  "only_counter s s' =
     (indents s' = indents s \<and> suiteIndents s' = suiteIndents s \<and> specs s' = specs s
      \<and> results s' = results s \<and> realtime s' = realtime s
      \<and> context_rt s' = context_rt s)"

text \<open>What printing leaves alone as well.\<close>

definition same_core :: "reporter \<Rightarrow> reporter \<Rightarrow> bool" where
  "same_core s s' =
     (indents s' = indents s \<and> suiteIndents s' = suiteIndents s \<and> specs s' = specs s
      \<and> results s' = results s \<and> realtime s' = realtime s)"

text \<open>Which worker, and which suite, an event is about.\<close>

fun is_runner_start_of :: "cid \<Rightarrow> event \<Rightarrow> bool" where
  "is_runner_start_of c (RunnerStart r) = (runner_cid r = c)"
| "is_runner_start_of c _ = False"

fun is_pass_of :: "cid \<Rightarrow> event \<Rightarrow> bool" where
  "is_pass_of c (TestPass t) = (test_cid t = c)"
| "is_pass_of c _ = False"

fun is_pending_of :: "cid \<Rightarrow> event \<Rightarrow> bool" where
  "is_pending_of c (TestPending t) = (test_cid t = c)"
| "is_pending_of c _ = False"

fun is_fail_of :: "cid \<Rightarrow> event \<Rightarrow> bool" where
  "is_fail_of c (TestFail t) = (test_cid t = c)"
| "is_fail_of c _ = False"

fun is_suite_start_of :: "cid \<Rightarrow> event \<Rightarrow> bool" where
  "is_suite_start_of c (SuiteStart su) = (suite_cid su = c)"
| "is_suite_start_of c _ = False"

fun is_suite_end_of :: "cid \<Rightarrow> event \<Rightarrow> bool" where
  "is_suite_end_of c (SuiteEnd su) = (suite_cid su = c)"
| "is_suite_end_of c _ = False"

fun is_suite_start_for :: "cid \<Rightarrow> uid \<Rightarrow> event \<Rightarrow> bool" where
  "is_suite_start_for c u (SuiteStart su) = (suite_cid su = c \<and> suite_uid su = u)"
| "is_suite_start_for c u _ = False"

definition count_of :: "(event \<Rightarrow> bool) \<Rightarrow> (baseReporter \<times> event) list \<Rightarrow> nat" where
  "count_of P evs = length (filter (\<lambda>x. P (snd x)) evs)"

text \<open>The depth stored for a suite of a worker, \<open>suiteIndents[cid][uid]\<close>.\<close>

definition suite_depth :: "reporter \<Rightarrow> cid \<Rightarrow> uid \<Rightarrow> depth option" where
  "suite_depth s c u = (case suiteIndents s c of None \<Rightarrow> None | Some m \<Rightarrow> m u)"

text \<open>A worker, its suites and its tests for the examples.\<close>

definition example_runner :: runner where
  "example_runner = \<lparr> runner_cid = ''0-0'', runner_specs = [''/spec/a.js''] \<rparr>"

definition example_suite :: "uid \<Rightarrow> suite" where
  "example_suite u = \<lparr> suite_cid = ''0-0'', suite_uid = u, suite_title = u \<rparr>"

definition example_test :: "string \<Rightarrow> string \<Rightarrow> test" where
  "example_test title st = \<lparr> test_cid = ''0-0'', test_title = title, test_state = st \<rparr>"

definition chrome_caps :: caps where
  "chrome_caps =
     \<lparr> deviceName = None, browserName = Some ''chrome'', browser = None,
       version = Some ''100'', platformVersion = None, browser_version = None,
       os = None, os_version = None, platform = Some ''Windows'', platformName = None,
       app = None \<rparr>"

definition example_runner_stats :: "(uid \<times> suite_stats) list \<Rightarrow> runner_stats" where
  "example_runner_stats suites =
     \<lparr> capabilities = chrome_caps, sessionID = Some ''abc'',
       runner_spec_stats = [(''hash'', \<lparr> spec_suites = suites, spec_duration = 1500 \<rparr>)],
       config_host = None \<rparr>"

text \<open>
  A listing with a before-all suite that holds one passed test, and a sibling suite with a
  passed test and one that has no state yet; a reporter that knows both suites at depth 1.
\<close>

definition hook_uid :: uid where
  "hook_uid = before_all @ '' hook''"

definition hook_suite :: suite_stats where
  "hook_suite = \<lparr> stats_title = hook_uid,
                  stats_tests = [(''works1'', example_test ''works'' ''pass'')] \<rparr>"

definition login_suite :: suite_stats where
  "login_suite = \<lparr> stats_title = ''login'',
                   stats_tests = [(''opens2'', example_test ''opens'' ''pass''),
                                  (''later3'', example_test ''later'' [])] \<rparr>"

definition example_reporter :: reporter where
  "example_reporter =
     (SpecReporter None)\<lparr>suiteIndents := [''0-0'' \<mapsto> [hook_uid \<mapsto> Num 1, ''login0'' \<mapsto> Num 1]]\<rparr>"

text \<open>
  The failed tests a listing renders: those of the suites without the before-all marker.
\<close>

definition fails_in :: "(uid \<times> test) list \<Rightarrow> nat" where
  "fails_in ts = length (filter (\<lambda>x. test_state (snd x) = ''fail'') ts)"

definition fails_listed :: "(uid \<times> suite_stats) list \<Rightarrow> nat" where
  "fails_listed suites =
     sum_list (map (\<lambda>x. fails_in (stats_tests (snd x)))
                   (filter (\<lambda>x. \<not> prefix before_all (fst x)) suites))"

text \<open>
  A worker at the end of its run, with two failed tests and a passed one in one suite, in
  a reporter whose error counter stands at 7 from an earlier block.
\<close>

definition checkout_suite :: suite_stats where
  "checkout_suite = \<lparr> stats_title = ''checkout'',
                      stats_tests = [(''pays1'', example_test ''pays'' ''fail''),
                                     (''ships2'', example_test ''ships'' ''pass''),
                                     (''bills3'', example_test ''bills'' ''fail'')] \<rparr>"

definition checkout_base :: baseReporter where
  "checkout_base = example_base [(''0-0'', example_runner_stats [(''checkout0'', checkout_suite)])]"

definition checkout_reporter :: reporter where
  "checkout_reporter =
     (SpecReporter None)
       \<lparr> errorCount := 7,
         suiteIndents := [''0-0'' \<mapsto> [''checkout0'' \<mapsto> Num 1]],
         specs := [''0-0'' \<mapsto> [''/spec/a.js'']],
         results := [''0-0'' \<mapsto> \<lparr>passing = 1, pending = 0, failing = 2\<rparr>] \<rparr>"

section \<open>Properties\<close>

subsection \<open>Indentation strings\<close>

lemma js_join_empty_slots: "js_join sep ([] # replicate n []) = concat (replicate n sep)"
  by (induction n) simp_all

text \<open>
  C3. For a worker and a suite whose recorded depth is \<open>d\<close> (a count, so not negative),
  \<open>indent\<close> returns \<open>d - 1\<close> units of four spaces; for \<open>d = 0\<close> and \<open>d = 1\<close> it returns
  the empty string. A negative depth, which only unbalanced \<open>suite:end\<close> events produce,
  raises a \<open>RangeError\<close>.
\<close>

theorem C3_indent_units:
  assumes "suiteIndents s c = Some m" and "m u = Some (Num d)" and "0 \<le> d"
  shows "indent s c u = Inr (concat (replicate (nat (d - 1)) ''    ''))
       \<and> (d = 0 \<or> d = 1 \<longrightarrow> indent s c u = Inr [])"
proof -
  have main: "indent s c u = Inr (concat (replicate (nat (d - 1)) ''    ''))"
  proof (cases "d = 0")
    case True
    with assms show ?thesis by (simp add: indent_def)
  next
    case False
    with assms have "0 < d" by simp
    then obtain n where n: "nat d = Suc n" by (cases "nat d") auto
    then have "nat (d - 1) = n" by simp
    with assms False \<open>0 < d\<close> n show ?thesis
      by (simp add: indent_def js_join_empty_slots)
  qed
  then show ?thesis by auto
qed

theorem C3_indent_units_witness:
  "indent ((SpecReporter None)\<lparr>suiteIndents := [''0-0'' \<mapsto> [''suite1'' \<mapsto> Num 3]]\<rparr>) ''0-0'' ''suite1''
     = Inr ''        ''"
  using C3_indent_units [of "(SpecReporter None)\<lparr>suiteIndents := [''0-0'' \<mapsto> [''suite1'' \<mapsto> Num 3]]\<rparr>"
      "''0-0''" "[''suite1'' \<mapsto> Num 3]" "''suite1''" 3]
  by (simp add: SpecReporter_def eval_nat_numeral)

subsection \<open>The environment descriptor\<close>

text \<open>
  C7. For the mobile capabilities of the example, which have no version field, the
  verbose descriptor writes the word \<open>undefined\<close> where the version would stand; it is
  not the string with an empty version.
\<close>

theorem C7_mobile_verbose_undefined:
  "getBrowserCombo iphone_caps True = ''iPhone on iOS 15 undefined executing Safari''
   \<and> getBrowserCombo iphone_caps True \<noteq> ''iPhone on iOS 15  executing Safari''"
  by (simp add: getBrowserCombo_def iphone_caps_def js_or_def truthy_def to_str_def or_empty_def
      js_trim_def is_space_def Let_def)

subsection \<open>What the text builders and the printers leave alone\<close>

lemma builder_frame_refl [simp]: "builder_frame s s"
  by (simp add: builder_frame_def)

lemma builder_frame_trans: "builder_frame s s' \<Longrightarrow> builder_frame s' s'' \<Longrightarrow> builder_frame s s''"
  by (simp add: builder_frame_def)

lemma builder_frame_core: "builder_frame s s' \<Longrightarrow> same_core s s'"
  by (simp add: builder_frame_def same_core_def)

lemma same_core_refl [simp]: "same_core s s"
  by (simp add: same_core_def)

lemma same_core_trans: "same_core s s' \<Longrightarrow> same_core s' s'' \<Longrightarrow> same_core s s''"
  by (simp add: same_core_def)

lemma only_counter_refl [simp]: "only_counter s s"
  by (simp add: only_counter_def)

lemma only_counter_trans: "only_counter s s' \<Longrightarrow> only_counter s' s'' \<Longrightarrow> only_counter s s''"
  by (simp add: only_counter_def)

lemma only_counter_frame: "only_counter s s' \<Longrightarrow> builder_frame s s'"
  by (simp add: only_counter_def builder_frame_def)

lemma getSymbol_counter: "only_counter s (snd (getSymbol br st s))"
  by (simp add: getSymbol_def only_counter_def Let_def)

lemma getTestResult_counter: "only_counter s (snd (getTestResult br c u t pre s))"
proof (cases "indent s c u")
  case (Inl e)
  then show ?thesis by (simp add: getTestResult_def)
next
  case (Inr ind)
  with getSymbol_counter [of s br "test_state t"] show ?thesis
    by (simp add: getTestResult_def Let_def split_beta)
qed

lemma getResultList_tests_counter:
  "only_counter s (snd (getResultList_tests br c u pre ts out s))"
proof (induction ts arbitrary: out s)
  case Nil
  show ?case by simp
next
  case (Cons a ts)
  obtain testUid t where a: "a = (testUid, t)" by (cases a)
  show ?case
  proof (cases "test_state t = []")
    case True
    with a Cons.IH show ?thesis by simp
  next
    case False
    obtain r s' where g: "getTestResult br c u t (Some pre) s = (r, s')"
      by (cases "getTestResult br c u t (Some pre) s")
    with getTestResult_counter [of s br c u t "Some pre"] have f: "only_counter s s'" by simp
    show ?thesis
    proof (cases r)
      case (Inl e)
      with a False g f show ?thesis by simp
    next
      case (Inr line)
      with a False g have "snd (getResultList_tests br c u pre (a # ts) out s)
            = snd (getResultList_tests br c u pre ts (out @ line @ nl) s')"
        by simp
      with only_counter_trans [OF f Cons.IH] show ?thesis by simp
    qed
  qed
qed

lemma getResultList_suites_counter:
  "only_counter s (snd (getResultList_suites br c pre suites out s))"
proof (induction suites arbitrary: out s)
  case Nil
  show ?case by simp
next
  case (Cons a suites)
  obtain specUid spec where a: "a = (specUid, spec)" by (cases a)
  show ?case
  proof (cases "indexOf specUid before_all = 0")
    case True
    with a Cons.IH show ?thesis by simp
  next
    case False
    show ?thesis
    proof (cases "indent s c specUid")
      case (Inl e)
      with a False show ?thesis by simp
    next
      case (Inr ind)
      define out1 where "out1 = out @ pre @ '' '' @ ind @ stats_title spec @ nl"
      obtain r s' where g: "getResultList_tests br c specUid pre (stats_tests spec) out1 s = (r, s')"
        by (cases "getResultList_tests br c specUid pre (stats_tests spec) out1 s")
      with getResultList_tests_counter [of s br c specUid pre "stats_tests spec" out1]
      have f: "only_counter s s'" by simp
      show ?thesis
      proof (cases r)
        case (Inl e)
        with a False Inr g f show ?thesis by (simp add: out1_def)
      next
        case r: (Inr out2)
        with a False Inr g have "snd (getResultList_suites br c pre (a # suites) out s)
              = snd (getResultList_suites br c pre suites (out2 @ js_trim pre @ nl) s')"
          by (simp add: out1_def)
        with only_counter_trans [OF f Cons.IH] show ?thesis by simp
      qed
    qed
  qed
qed

lemma getResultList_counter: "only_counter s (snd (getResultList br c suites pre s))"
  by (simp add: getResultList_def getResultList_suites_counter)

lemma getTestResult_frame: "builder_frame s (snd (getTestResult br c u t pre s))"
  by (rule only_counter_frame [OF getTestResult_counter])

lemma getResultList_frame: "builder_frame s (snd (getResultList br c suites pre s))"
  by (rule only_counter_frame [OF getResultList_counter])

lemma getHeader_frame: "builder_frame s (snd (getHeader br ro s))"
  by (simp add: getHeader_def builder_frame_def Let_def split: option.splits)

lemma getSuiteResult_frame: "builder_frame s (snd (getSuiteResult br hz r s))"
proof -
  define s1 where "s1 = snd (getHeader br (Some r) (s\<lparr>errorCount := 0\<rparr>))"
  have reset: "builder_frame s (s\<lparr>errorCount := 0\<rparr>)"
    by (simp add: builder_frame_def)
  have header: "builder_frame s s1"
    unfolding s1_def by (rule builder_frame_trans [OF reset getHeader_frame])
  have list: "builder_frame s (snd (getResultList br c suites pre s1))" for c suites pre
    by (rule builder_frame_trans [OF header getResultList_frame])
  show ?thesis
    using header list
    by (simp add: getSuiteResult_def Let_def split_beta s1_def [symmetric]
        split: option.splits sum.splits)
qed

lemma printHeader_core: "same_core s (fst (printHeader br ro s))"
proof -
  have "same_core s (s\<lparr>context_rt := (context_rt s)\<lparr>headerPrinted := True\<rparr>\<rparr>)"
    by (simp add: same_core_def)
  from same_core_trans [OF this builder_frame_core [OF getHeader_frame]]
  show ?thesis
    by (simp add: printHeader_def Let_def split_beta split: sum.splits)
qed

lemma printSuiteHeader_same: "fst (printSuiteHeader su s) = s"
  by (simp add: printSuiteHeader_def split: sum.splits)

lemma printTestResult_core: "same_core s (fst (printTestResult br so t s))"
  using builder_frame_core [OF getTestResult_frame]
  by (simp add: printTestResult_def split_beta split: option.splits sum.splits)

lemma printSuiteResult_core: "same_core s (fst (printSuiteResult br hz r s))"
  using builder_frame_core [OF getSuiteResult_frame [of s br hz r]]
  by (simp add: printSuiteResult_def split_beta split: sum.splits)

subsection \<open>What each handler does to the per-worker maps\<close>

lemma on_runner_start_state:
  "fst (on_runner_start r s) =
     (let s1 = s\<lparr> suiteIndents := (suiteIndents s)(runner_cid r \<mapsto> Map.empty),
                  indents := (indents s)(runner_cid r \<mapsto> Num 0),
                  specs := (specs s)(runner_cid r \<mapsto> runner_specs r),
                  results := (results s)(runner_cid r \<mapsto> \<lparr>passing = 0, pending = 0, failing = 0\<rparr>) \<rparr>
      in if realtime s
         then s1\<lparr>context_rt := (context_rt s)\<lparr>ctx_runner := Some r, headerPrinted := False\<rparr>\<rparr>
         else s1)"
  by (simp add: on_runner_start_def Let_def)

lemma on_suite_start_core:
  "same_core
     (case suiteIndents s (suite_cid su) of
        None \<Rightarrow> s\<lparr>indents := (indents s)(suite_cid su \<mapsto> incr (indents s (suite_cid su)))\<rparr>
      | Some m \<Rightarrow>
          s\<lparr> indents := (indents s)(suite_cid su \<mapsto> incr (indents s (suite_cid su))),
             suiteIndents := (suiteIndents s)(suite_cid su \<mapsto>
                               m(suite_uid su \<mapsto> incr (indents s (suite_cid su)))) \<rparr>)
     (fst (on_suite_start br su s))"
proof (cases "suiteIndents s (suite_cid su)")
  case None
  then show ?thesis by (simp add: on_suite_start_def)
next
  case (Some m)
  define s1 where "s1 = s\<lparr> indents := (indents s)(suite_cid su \<mapsto> incr (indents s (suite_cid su))),
             suiteIndents := (suiteIndents s)(suite_cid su \<mapsto>
                               m(suite_uid su \<mapsto> incr (indents s (suite_cid su)))) \<rparr>"
  define s2 where "s2 = s1\<lparr>context_rt := (context_rt s1)\<lparr>ctx_suite := Some su\<rparr>\<rparr>"
  have c12: "same_core s1 s2"
    by (simp add: s2_def same_core_def)
  have c23: "same_core s1 (fst (printHeader br ro s2))" for ro
    by (rule same_core_trans [OF c12 printHeader_core])
  have c24: "same_core s1 (x\<lparr>context_rt := (context_rt x)\<lparr>headerPrinted := True\<rparr>\<rparr>)"
    if "same_core s1 x" for x
    using that by (simp add: same_core_def)
  have "same_core s1 (fst (on_suite_start br su s))"
    using c12 c23 c24 [OF c23] Some
    by (simp add: on_suite_start_def Let_def s1_def [symmetric] s2_def [symmetric]
        printSuiteHeader_same split_beta split: option.splits)
  with Some show ?thesis by (simp add: s1_def)
qed

lemma on_test_pending_core:
  "same_core
     (case results s (test_cid t) of
        None \<Rightarrow> s
      | Some r \<Rightarrow> s\<lparr>results := (results s)(test_cid t \<mapsto> r\<lparr>pending := pending r + 1\<rparr>)\<rparr>)
     (fst (on_test_pending br t s))"
  by (simp add: on_test_pending_def Let_def printTestResult_core split: option.splits)

lemma on_test_pass_core:
  "same_core
     (case results s (test_cid t) of
        None \<Rightarrow> s
      | Some r \<Rightarrow> s\<lparr>results := (results s)(test_cid t \<mapsto> r\<lparr>passing := passing r + 1\<rparr>)\<rparr>)
     (fst (on_test_pass br t s))"
  by (simp add: on_test_pass_def Let_def printTestResult_core split: option.splits)

lemma on_test_fail_core:
  "same_core
     (case results s (test_cid t) of
        None \<Rightarrow> s
      | Some r \<Rightarrow> s\<lparr>results := (results s)(test_cid t \<mapsto> r\<lparr>failing := failing r + 1\<rparr>)\<rparr>)
     (fst (on_test_fail br t s))"
  by (simp add: on_test_fail_def Let_def printTestResult_core split: option.splits)

lemma on_suite_end_core:
  "same_core (s\<lparr>indents := (indents s)(suite_cid su \<mapsto> decr (indents s (suite_cid su)))\<rparr>)
     (fst (on_suite_end su s))"
  by (simp add: on_suite_end_def Let_def same_core_def)

lemma on_runner_end_core: "same_core s (fst (on_runner_end br hz r s))"
  by (simp add: on_runner_end_def Let_def printSuiteResult_core split: option.splits)

lemma on_end_same: "fst (on_end br s) = s"
  by (simp add: on_end_def)

subsection \<open>The mode flag\<close>

lemma realtime_dispatch: "realtime (fst (dispatch br hz s e)) = realtime s"
proof (cases e)
  case (RunnerStart r)
  then show ?thesis by (simp add: on_runner_start_state Let_def)
next
  case (SuiteStart su)
  with on_suite_start_core [of s su br] show ?thesis
    by (simp add: same_core_def split: option.splits)
next
  case (TestPending t)
  with on_test_pending_core [of s t br] show ?thesis
    by (simp add: same_core_def split: option.splits)
next
  case (TestPass t)
  with on_test_pass_core [of s t br] show ?thesis
    by (simp add: same_core_def split: option.splits)
next
  case (TestFail t)
  with on_test_fail_core [of s t br] show ?thesis
    by (simp add: same_core_def split: option.splits)
next
  case (SuiteEnd su)
  with on_suite_end_core [of s su] show ?thesis
    by (simp add: same_core_def)
next
  case (RunnerEnd r)
  with on_runner_end_core [of s br hz r] show ?thesis
    by (simp add: same_core_def)
next
  case End
  then show ?thesis by (simp add: on_end_same)
qed

lemma realtime_run: "realtime (run hz s evs) = realtime s"
proof (induction evs arbitrary: s)
  case Nil
  show ?case by simp
next
  case (Cons a evs)
  obtain br e where a: "a = (br, e)" by (cases a)
  have "realtime (run hz s (a # evs)) = realtime (fst (dispatch br hz s e))"
    unfolding a run.simps by (rule Cons.IH)
  then show ?case by (simp only: realtime_dispatch)
qed

text \<open>
  C10. The real-time flag is computed by the constructor as: the configuration is defined
  and its \<open>maxInstances\<close> is 1; with an undefined configuration, or \<open>maxInstances\<close> absent or
  another number, the reporter is in batched mode. No event handler changes the flag, so
  it is the same after any run.
\<close>

theorem C10_realtime_fixed_at_construction:
  "realtime (SpecReporter cfg) = (\<exists>c. cfg = Some c \<and> maxInstances c = Some 1)
   \<and> realtime (SpecReporter None) = False
   \<and> realtime (SpecReporter (Some \<lparr>maxInstances = None\<rparr>)) = False
   \<and> realtime (SpecReporter (Some \<lparr>maxInstances = Some 2\<rparr>)) = False
   \<and> realtime (fst (dispatch br hz s e)) = realtime s
   \<and> realtime (run hz (SpecReporter cfg) evs) = realtime (SpecReporter cfg)"
proof (intro conjI)
  show "realtime (SpecReporter cfg) = (\<exists>c. cfg = Some c \<and> maxInstances c = Some 1)"
    by (cases cfg) (simp_all add: SpecReporter_def)
  show "realtime (SpecReporter None) = False"
    by (simp add: SpecReporter_def)
  show "realtime (SpecReporter (Some \<lparr>maxInstances = None\<rparr>)) = False"
    by (simp add: SpecReporter_def)
  show "realtime (SpecReporter (Some \<lparr>maxInstances = Some 2\<rparr>)) = False"
    by (simp add: SpecReporter_def)
  show "realtime (fst (dispatch br hz s e)) = realtime s"
    by (rule realtime_dispatch)
  show "realtime (run hz (SpecReporter cfg) evs) = realtime (SpecReporter cfg)"
    by (rule realtime_run)
qed

subsection \<open>The counters of a worker\<close>

lemma results_step:
  assumes r: "results s c = Some cnt" and e: "\<not> is_runner_start_of c e"
  shows "results (fst (dispatch br hz s e)) c =
     Some \<lparr> passing = passing cnt + (if is_pass_of c e then 1 else 0),
            pending = pending cnt + (if is_pending_of c e then 1 else 0),
            failing = failing cnt + (if is_fail_of c e then 1 else 0) \<rparr>"
proof (cases e)
  case (RunnerStart r)
  with assms show ?thesis by (simp add: on_runner_start_state Let_def)
next
  case (SuiteStart su)
  with on_suite_start_core [of s su br] assms show ?thesis
    by (simp add: same_core_def split: option.splits)
next
  case (TestPending t)
  with on_test_pending_core [of s t br] assms show ?thesis
    by (simp add: same_core_def split: option.splits)
next
  case (TestPass t)
  with on_test_pass_core [of s t br] assms show ?thesis
    by (simp add: same_core_def split: option.splits)
next
  case (TestFail t)
  with on_test_fail_core [of s t br] assms show ?thesis
    by (simp add: same_core_def split: option.splits)
next
  case (SuiteEnd su)
  with on_suite_end_core [of s su] assms show ?thesis
    by (simp add: same_core_def)
next
  case (RunnerEnd r)
  with on_runner_end_core [of s br hz r] assms show ?thesis
    by (simp add: same_core_def)
next
  case End
  with assms show ?thesis by (simp add: on_end_same)
qed

lemma count_of_Nil [simp]: "count_of P [] = 0"
  by (simp add: count_of_def)

lemma count_of_Cons [simp]: "count_of P ((br, e) # evs) = (if P e then 1 else 0) + count_of P evs"
  by (simp add: count_of_def)

lemma results_run:
  assumes "results s c = Some cnt" and "\<forall>x \<in> set evs. \<not> is_runner_start_of c (snd x)"
  shows "results (run hz s evs) c =
     Some \<lparr> passing = passing cnt + count_of (is_pass_of c) evs,
            pending = pending cnt + count_of (is_pending_of c) evs,
            failing = failing cnt + count_of (is_fail_of c) evs \<rparr>"
  using assms
proof (induction evs arbitrary: s cnt)
  case Nil
  then show ?case by simp
next
  case (Cons a evs)
  obtain br e where a: "a = (br, e)" by (cases a)
  define cnt' where "cnt' = \<lparr> passing = passing cnt + (if is_pass_of c e then 1 else 0),
            pending = pending cnt + (if is_pending_of c e then 1 else 0),
            failing = failing cnt + (if is_fail_of c e then 1 else 0) \<rparr>"
  from Cons.prems a have e: "\<not> is_runner_start_of c e" by simp
  have step: "results (fst (dispatch br hz s e)) c = Some cnt'"
    unfolding cnt'_def by (rule results_step [OF Cons.prems(1) e])
  from Cons.prems(2) have rest: "\<forall>x \<in> set evs. \<not> is_runner_start_of c (snd x)" by simp
  have "results (run hz (fst (dispatch br hz s e)) evs) c =
     Some \<lparr> passing = passing cnt' + count_of (is_pass_of c) evs,
            pending = pending cnt' + count_of (is_pending_of c) evs,
            failing = failing cnt' + count_of (is_fail_of c) evs \<rparr>"
    by (rule Cons.IH [OF step rest])
  then show ?case by (simp add: a cnt'_def)
qed

text \<open>
  C1. After \<open>runner:start\<close> of a worker, whatever events follow (its own test events in any
  interleaving, also suite events and the events of other workers, and in either mode),
  as long as the worker is not started a second time: its results record holds the number
  of \<open>test:pass\<close>, of \<open>test:pending\<close> and of \<open>test:fail\<close> events delivered for it.
\<close>

theorem C1_final_counters:
  assumes "\<forall>x \<in> set evs. \<not> is_runner_start_of (runner_cid r) (snd x)"
  shows "results (run hz s ((br, RunnerStart r) # evs)) (runner_cid r) =
     Some \<lparr> passing = count_of (is_pass_of (runner_cid r)) evs,
            pending = count_of (is_pending_of (runner_cid r)) evs,
            failing = count_of (is_fail_of (runner_cid r)) evs \<rparr>"
proof -
  have start: "results (fst (dispatch br hz s (RunnerStart r))) (runner_cid r)
                = Some \<lparr>passing = 0, pending = 0, failing = 0\<rparr>"
    by (simp add: on_runner_start_state Let_def)
  from results_run [OF start assms, of hz] show ?thesis by simp
qed

theorem C1_final_counters_witness:
  "results (run example_humanizer (SpecReporter (Some \<lparr>maxInstances = Some 1\<rparr>))
            [(example_base [], RunnerStart example_runner),
             (example_base [], TestPass (example_test ''a'' [])),
             (example_base [], TestFail (example_test ''b'' [])),
             (example_base [], TestPass (example_test ''c'' [])),
             (example_base [], TestPending (example_test ''d'' []))]) ''0-0''
     = Some \<lparr> passing = 2, pending = 1, failing = 1 \<rparr>"
  using C1_final_counters [of
      "[(example_base [], TestPass (example_test ''a'' [])),
        (example_base [], TestFail (example_test ''b'' [])),
        (example_base [], TestPass (example_test ''c'' [])),
        (example_base [], TestPending (example_test ''d'' []))]"
      example_runner example_humanizer "SpecReporter (Some \<lparr>maxInstances = Some 1\<rparr>)"
      "example_base []"]
  by (simp add: example_runner_def example_test_def)
subsection \<open>The indent counter of a worker\<close>

lemma run_append: "run hz s (xs @ ys) = run hz (run hz s xs) ys"
proof (induction xs arbitrary: s)
  case Nil
  show ?case by simp
next
  case (Cons a xs)
  obtain br e where a: "a = (br, e)" by (cases a)
  show ?case unfolding a append_Cons run.simps by (rule Cons.IH)
qed

lemma indents_step:
  assumes i: "indents s c = Some (Num n)" and m: "suiteIndents s c = Some m"
    and e: "\<not> is_runner_start_of c e"
  shows "indents (fst (dispatch br hz s e)) c =
           Some (Num (n + (if is_suite_start_of c e then 1 else 0)
                        - (if is_suite_end_of c e then 1 else 0)))
       \<and> (\<exists>m'. suiteIndents (fst (dispatch br hz s e)) c = Some m')"
proof (cases e)
  case (RunnerStart r)
  with assms show ?thesis by (simp add: on_runner_start_state Let_def)
next
  case (SuiteStart su)
  with on_suite_start_core [of s su br] assms show ?thesis
    by (simp add: same_core_def incr_def split: option.splits)
next
  case (TestPending t)
  with on_test_pending_core [of s t br] assms show ?thesis
    by (simp add: same_core_def split: option.splits)
next
  case (TestPass t)
  with on_test_pass_core [of s t br] assms show ?thesis
    by (simp add: same_core_def split: option.splits)
next
  case (TestFail t)
  with on_test_fail_core [of s t br] assms show ?thesis
    by (simp add: same_core_def split: option.splits)
next
  case (SuiteEnd su)
  with on_suite_end_core [of s su] assms show ?thesis
    by (auto simp add: same_core_def decr_def)
next
  case (RunnerEnd r)
  with on_runner_end_core [of s br hz r] assms show ?thesis
    by (simp add: same_core_def)
next
  case End
  with assms show ?thesis by (simp add: on_end_same)
qed

lemma indents_run:
  assumes "indents s c = Some (Num n)" and "suiteIndents s c = Some m"
    and "\<forall>x \<in> set evs. \<not> is_runner_start_of c (snd x)"
  shows "indents (run hz s evs) c =
           Some (Num (n + int (count_of (is_suite_start_of c) evs)
                        - int (count_of (is_suite_end_of c) evs)))
       \<and> (\<exists>m'. suiteIndents (run hz s evs) c = Some m')"
  using assms
proof (induction evs arbitrary: s n m)
  case Nil
  then show ?case by simp
next
  case (Cons a evs)
  obtain br e where a: "a = (br, e)" by (cases a)
  define n' where "n' = n + (if is_suite_start_of c e then 1 else 0)
                          - (if is_suite_end_of c e then 1 else 0)"
  from Cons.prems a have e: "\<not> is_runner_start_of c e" by simp
  from indents_step [OF Cons.prems(1) Cons.prems(2) e, of br hz]
  obtain m' where step: "indents (fst (dispatch br hz s e)) c = Some (Num n')"
    and m': "suiteIndents (fst (dispatch br hz s e)) c = Some m'"
    unfolding n'_def by blast
  from Cons.prems(3) have rest: "\<forall>x \<in> set evs. \<not> is_runner_start_of c (snd x)" by simp
  from Cons.IH [OF step m' rest]
  show ?case by (simp add: a n'_def)
qed

lemma suite_depth_step:
  assumes "\<not> is_runner_start_of c e" and "\<not> is_suite_start_for c u e"
  shows "suite_depth (fst (dispatch br hz s e)) c u = suite_depth s c u"
proof (cases e)
  case (RunnerStart r)
  with assms show ?thesis by (simp add: on_runner_start_state Let_def suite_depth_def)
next
  case (SuiteStart su)
  with on_suite_start_core [of s su br] assms show ?thesis
    by (auto simp add: same_core_def suite_depth_def split: option.splits)
next
  case (TestPending t)
  with on_test_pending_core [of s t br] assms show ?thesis
    by (simp add: same_core_def suite_depth_def split: option.splits)
next
  case (TestPass t)
  with on_test_pass_core [of s t br] assms show ?thesis
    by (simp add: same_core_def suite_depth_def split: option.splits)
next
  case (TestFail t)
  with on_test_fail_core [of s t br] assms show ?thesis
    by (simp add: same_core_def suite_depth_def split: option.splits)
next
  case (SuiteEnd su)
  with on_suite_end_core [of s su] assms show ?thesis
    by (simp add: same_core_def suite_depth_def)
next
  case (RunnerEnd r)
  with on_runner_end_core [of s br hz r] assms show ?thesis
    by (simp add: same_core_def suite_depth_def)
next
  case End
  with assms show ?thesis by (simp add: on_end_same)
qed

lemma suite_depth_run:
  assumes "\<forall>x \<in> set evs. \<not> is_runner_start_of c (snd x) \<and> \<not> is_suite_start_for c u (snd x)"
  shows "suite_depth (run hz s evs) c u = suite_depth s c u"
  using assms
proof (induction evs arbitrary: s)
  case Nil
  show ?case by simp
next
  case (Cons a evs)
  obtain br e where a: "a = (br, e)" by (cases a)
  from Cons.prems a have e: "\<not> is_runner_start_of c e" "\<not> is_suite_start_for c u e" by simp_all
  from Cons.prems have rest:
    "\<forall>x \<in> set evs. \<not> is_runner_start_of c (snd x) \<and> \<not> is_suite_start_for c u (snd x)" by simp
  have "suite_depth (run hz s (a # evs)) c u = suite_depth (fst (dispatch br hz s e)) c u"
    unfolding a run.simps by (rule Cons.IH [OF rest])
  also have "\<dots> = suite_depth s c u" by (rule suite_depth_step [OF e])
  finally show ?case .
qed

lemma suite_depth_start:
  assumes "indents s c = Some (Num n)" and "suiteIndents s c = Some m" and "suite_cid su = c"
  shows "suite_depth (fst (dispatch br hz s (SuiteStart su))) c (suite_uid su) = Some (Num (n + 1))"
  using on_suite_start_core [of s su br] assms
  by (simp add: same_core_def suite_depth_def incr_def)

lemma count_starts_of_starts:
  assumes "\<forall>x \<in> set xs. suite_cid (snd x) = c"
  shows "count_of (is_suite_start_of c) (map (\<lambda>x. (fst x, SuiteStart (snd x))) xs) = length xs"
  using assms by (induction xs) (simp_all add: count_of_def)

lemma count_ends_of_starts:
  "count_of (is_suite_end_of c) (map (\<lambda>x. (fst x, SuiteStart (snd x))) xs) = 0"
  by (induction xs) (simp_all add: count_of_def)

lemma count_starts_of_ends:
  "count_of (is_suite_start_of c) (map (\<lambda>x. (fst x, SuiteEnd (snd x))) xs) = 0"
  by (induction xs) (simp_all add: count_of_def)

lemma count_ends_of_ends:
  assumes "\<forall>x \<in> set xs. suite_cid (snd x) = c"
  shows "count_of (is_suite_end_of c) (map (\<lambda>x. (fst x, SuiteEnd (snd x))) xs) = length xs"
  using assms by (induction xs) (simp_all add: count_of_def)

lemma no_runner_start_in_starts:
  "\<forall>x \<in> set (map (\<lambda>x. (fst x, SuiteStart (snd x))) xs). \<not> is_runner_start_of c (snd x)"
  by simp

lemma no_runner_start_in_ends:
  "\<forall>x \<in> set (map (\<lambda>x. (fst x, SuiteEnd (snd x))) xs).
     \<not> is_runner_start_of c (snd x) \<and> \<not> is_suite_start_for c u (snd x)"
  by simp

lemma after_runner_start:
  "indents (fst (dispatch br hz s (RunnerStart r))) (runner_cid r) = Some (Num 0)
   \<and> suiteIndents (fst (dispatch br hz s (RunnerStart r))) (runner_cid r) = Some Map.empty"
  by (simp add: on_runner_start_state Let_def)

lemma depth_after_starts:
  assumes cids: "\<forall>x \<in> set xs. suite_cid (snd x) = runner_cid r"
  shows "indents (run hz s ((br, RunnerStart r) # map (\<lambda>x. (fst x, SuiteStart (snd x))) xs))
           (runner_cid r) = Some (Num (int (length xs)))
       \<and> (\<exists>m. suiteIndents (run hz s ((br, RunnerStart r) # map (\<lambda>x. (fst x, SuiteStart (snd x))) xs))
           (runner_cid r) = Some m)"
proof -
  from after_runner_start [of br hz s r]
  have i: "indents (fst (dispatch br hz s (RunnerStart r))) (runner_cid r) = Some (Num 0)"
    and m: "suiteIndents (fst (dispatch br hz s (RunnerStart r))) (runner_cid r) = Some Map.empty"
    by simp_all
  from indents_run [OF i m no_runner_start_in_starts, of hz xs]
  show ?thesis
    by (simp add: count_starts_of_starts [OF cids] count_ends_of_starts)
qed
lemma stored_depth_after_starts:
  assumes cids: "\<forall>x \<in> set xs. suite_cid (snd x) = runner_cid r"
    and uids: "distinct (map (\<lambda>x. suite_uid (snd x)) xs)"
    and i: "i < length xs"
  shows "suite_depth (run hz s ((br, RunnerStart r) # map (\<lambda>x. (fst x, SuiteStart (snd x))) xs))
           (runner_cid r) (suite_uid (snd (xs ! i))) = Some (Num (int i + 1))"
proof -
  define c where "c = runner_cid r"
  define u where "u = suite_uid (snd (xs ! i))"
  define before where "before = take i xs"
  define after where "after = drop (Suc i) xs"
  define s1 where
    "s1 = run hz s ((br, RunnerStart r) # map (\<lambda>x. (fst x, SuiteStart (snd x))) before)"
  define s2 where "s2 = fst (dispatch (fst (xs ! i)) hz s1 (SuiteStart (snd (xs ! i))))"
  from i have split: "xs = before @ (xs ! i) # after"
    unfolding before_def after_def by (rule id_take_nth_drop)
  from i have len: "length before = i" by (simp add: before_def)
  have "\<forall>x \<in> set before. suite_cid (snd x) = runner_cid r"
    using cids by (auto simp add: before_def dest: in_set_takeD)
  from depth_after_starts [OF this, of hz s br] len
  obtain m where i1: "indents s1 c = Some (Num (int i))" and m1: "suiteIndents s1 c = Some m"
    unfolding s1_def c_def by auto
  from cids i have "suite_cid (snd (xs ! i)) = c" by (simp add: c_def)
  from suite_depth_start [OF i1 m1 this, of "fst (xs ! i)" hz]
  have d2: "suite_depth s2 c u = Some (Num (int i + 1))"
    by (simp add: s2_def u_def)
  have "\<forall>x \<in> set after. suite_uid (snd x) \<noteq> u"
  proof
    fix x assume x: "x \<in> set after"
    from uids split have "distinct (map (\<lambda>x. suite_uid (snd x)) (before @ (xs ! i) # after))"
      by simp
    then have "u \<notin> (\<lambda>x. suite_uid (snd x)) ` set after"
      by (simp add: u_def)
    with x show "suite_uid (snd x) \<noteq> u" by (metis image_eqI)
  qed
  then have rest: "\<forall>x \<in> set (map (\<lambda>x. (fst x, SuiteStart (snd x))) after).
      \<not> is_runner_start_of c (snd x) \<and> \<not> is_suite_start_for c u (snd x)"
    by simp
  have "run hz s ((br, RunnerStart r) # map (\<lambda>x. (fst x, SuiteStart (snd x))) xs)
        = run hz s (((br, RunnerStart r) # map (\<lambda>x. (fst x, SuiteStart (snd x))) before)
                    @ (fst (xs ! i), SuiteStart (snd (xs ! i)))
                      # map (\<lambda>x. (fst x, SuiteStart (snd x))) after)"
    by (subst split) simp
  also have "\<dots> = run hz s2 (map (\<lambda>x. (fst x, SuiteStart (snd x))) after)"
    by (simp only: run_append run.simps s1_def s2_def)
  finally have "suite_depth (run hz s ((br, RunnerStart r) # map (\<lambda>x. (fst x, SuiteStart (snd x))) xs)) c u
        = suite_depth s2 c u"
    using suite_depth_run [OF rest, of hz s2] by simp
  with d2 show ?thesis by (simp add: c_def u_def)
qed

text \<open>
  C2. After \<open>runner:start\<close> and \<open>N\<close> nested \<open>suite:start\<close> events of a worker its indent
  counter is \<open>N\<close>; after \<open>N\<close> \<open>suite:end\<close> events, whichever suites they name, it is 0
  again: there is one counter for the worker, not a stack. The depth stored for the
  \<open>i\<close>-th suite is the counter at its \<open>suite:start\<close>, and it is still that after the
  later starts and after the ends. In any interleaving of events after \<open>runner:start\<close>
  that does not start the worker again (sibling suites, tests, other workers), the
  counter is the number of the worker's \<open>suite:start\<close> events less the number of its
  \<open>suite:end\<close> events.
\<close>

theorem C2_indent_depth_counter:
  assumes starts: "\<forall>x \<in> set starts. suite_cid (snd x) = runner_cid r"
    and ends: "\<forall>x \<in> set ends. suite_cid (snd x) = runner_cid r"
    and balanced: "length ends = length starts"
    and uids: "distinct (map (\<lambda>x. suite_uid (snd x)) starts)"
  shows "indents (run hz s ((br, RunnerStart r) # map (\<lambda>x. (fst x, SuiteStart (snd x))) starts))
           (runner_cid r) = Some (Num (int (length starts)))
       \<and> indents (run hz s (((br, RunnerStart r) # map (\<lambda>x. (fst x, SuiteStart (snd x))) starts)
                              @ map (\<lambda>x. (fst x, SuiteEnd (snd x))) ends))
           (runner_cid r) = Some (Num 0)
       \<and> (\<forall>i < length starts.
            suite_depth (run hz s ((br, RunnerStart r) # map (\<lambda>x. (fst x, SuiteStart (snd x))) starts))
              (runner_cid r) (suite_uid (snd (starts ! i))) = Some (Num (int i + 1))
          \<and> suite_depth (run hz s (((br, RunnerStart r) # map (\<lambda>x. (fst x, SuiteStart (snd x))) starts)
                                     @ map (\<lambda>x. (fst x, SuiteEnd (snd x))) ends))
              (runner_cid r) (suite_uid (snd (starts ! i))) = Some (Num (int i + 1)))
       \<and> ((\<forall>x \<in> set evs. \<not> is_runner_start_of (runner_cid r) (snd x)) \<longrightarrow>
            indents (run hz s ((br, RunnerStart r) # evs)) (runner_cid r)
              = Some (Num (int (count_of (is_suite_start_of (runner_cid r)) evs)
                           - int (count_of (is_suite_end_of (runner_cid r)) evs))))"
proof -
  define c where "c = runner_cid r"
  define opened_evs where
    "opened_evs = (br, RunnerStart r) # map (\<lambda>x. (fst x, SuiteStart (snd x))) starts"
  define closing_evs where "closing_evs = map (\<lambda>x. (fst x, SuiteEnd (snd x))) ends"
  from depth_after_starts [OF starts, of hz s br]
  obtain m where opened: "indents (run hz s opened_evs) c = Some (Num (int (length starts)))"
    and m: "suiteIndents (run hz s opened_evs) c = Some m"
    unfolding opened_evs_def c_def by auto
  have no_start: "\<forall>x \<in> set closing_evs. \<not> is_runner_start_of c (snd x)"
    by (simp add: closing_evs_def)
  from indents_run [OF opened m no_start, of hz]
  have closed: "indents (run hz s (opened_evs @ closing_evs)) c = Some (Num 0)"
    using ends balanced
    by (simp add: run_append closing_evs_def count_starts_of_ends count_ends_of_ends c_def)
  have stored: "suite_depth (run hz s opened_evs) c (suite_uid (snd (starts ! i))) = Some (Num (int i + 1))"
    if "i < length starts" for i
    unfolding opened_evs_def c_def by (rule stored_depth_after_starts [OF starts uids that])
  have kept: "suite_depth (run hz s (opened_evs @ closing_evs)) c u = suite_depth (run hz s opened_evs) c u" for u
    unfolding run_append closing_evs_def by (rule suite_depth_run [OF no_runner_start_in_ends])
  have general: "indents (run hz s ((br, RunnerStart r) # evs)) c
              = Some (Num (int (count_of (is_suite_start_of c) evs)
                           - int (count_of (is_suite_end_of c) evs)))"
    if "\<forall>x \<in> set evs. \<not> is_runner_start_of c (snd x)"
  proof -
    from after_runner_start [of br hz s r]
    have i0: "indents (fst (dispatch br hz s (RunnerStart r))) c = Some (Num 0)"
      and m0: "suiteIndents (fst (dispatch br hz s (RunnerStart r))) c = Some Map.empty"
      by (simp_all add: c_def)
    from indents_run [OF i0 m0 that, of hz] show ?thesis by simp
  qed
  from opened closed stored kept general show ?thesis
    unfolding opened_evs_def closing_evs_def c_def by simp
qed
theorem C2_indent_depth_counter_witness:
  "indents (run example_humanizer (SpecReporter None)
             [(example_base [], RunnerStart example_runner),
              (example_base [], SuiteStart (example_suite ''outer'')),
              (example_base [], SuiteStart (example_suite ''inner''))]) ''0-0'' = Some (Num 2)
   \<and> indents (run example_humanizer (SpecReporter None)
             [(example_base [], RunnerStart example_runner),
              (example_base [], SuiteStart (example_suite ''outer'')),
              (example_base [], SuiteStart (example_suite ''inner'')),
              (example_base [], SuiteEnd (example_suite ''outer'')),
              (example_base [], SuiteEnd (example_suite ''outer''))]) ''0-0'' = Some (Num 0)
   \<and> suite_depth (run example_humanizer (SpecReporter None)
             [(example_base [], RunnerStart example_runner),
              (example_base [], SuiteStart (example_suite ''outer'')),
              (example_base [], SuiteStart (example_suite ''inner'')),
              (example_base [], SuiteEnd (example_suite ''outer'')),
              (example_base [], SuiteEnd (example_suite ''outer''))]) ''0-0'' ''inner'' = Some (Num 2)
   \<and> indents (run example_humanizer (SpecReporter None)
             [(example_base [], RunnerStart example_runner),
              (example_base [], SuiteStart (example_suite ''first'')),
              (example_base [], SuiteEnd (example_suite ''first'')),
              (example_base [], SuiteStart (example_suite ''second''))]) ''0-0'' = Some (Num 1)"
proof -
  define starts where "starts = [(example_base [], example_suite ''outer''),
                                 (example_base [], example_suite ''inner'')]"
  define ends where "ends = [(example_base [], example_suite ''outer''),
                             (example_base [], example_suite ''outer'')]"
  have h1: "\<forall>x \<in> set starts. suite_cid (snd x) = runner_cid example_runner"
    by (simp add: starts_def example_suite_def example_runner_def)
  have h2: "\<forall>x \<in> set ends. suite_cid (snd x) = runner_cid example_runner"
    by (simp add: ends_def example_suite_def example_runner_def)
  have h3: "length ends = length starts"
    by (simp add: starts_def ends_def)
  have h4: "distinct (map (\<lambda>x. suite_uid (snd x)) starts)"
    by (simp add: starts_def example_suite_def)
  note th = C2_indent_depth_counter [OF h1 h2 h3 h4, of example_humanizer "SpecReporter None"
      "example_base []"
      "[(example_base [], SuiteStart (example_suite ''first'')),
        (example_base [], SuiteEnd (example_suite ''first'')),
        (example_base [], SuiteStart (example_suite ''second''))]"]
  from th have a: "indents (run example_humanizer (SpecReporter None)
             [(example_base [], RunnerStart example_runner),
              (example_base [], SuiteStart (example_suite ''outer'')),
              (example_base [], SuiteStart (example_suite ''inner''))]) ''0-0'' = Some (Num 2)"
    by (simp add: starts_def example_runner_def)
  from th have b: "indents (run example_humanizer (SpecReporter None)
             [(example_base [], RunnerStart example_runner),
              (example_base [], SuiteStart (example_suite ''outer'')),
              (example_base [], SuiteStart (example_suite ''inner'')),
              (example_base [], SuiteEnd (example_suite ''outer'')),
              (example_base [], SuiteEnd (example_suite ''outer''))]) ''0-0'' = Some (Num 0)"
    by (simp add: starts_def ends_def example_runner_def)
  from th have "\<forall>i<length starts. suite_depth (run example_humanizer (SpecReporter None)
             [(example_base [], RunnerStart example_runner),
              (example_base [], SuiteStart (example_suite ''outer'')),
              (example_base [], SuiteStart (example_suite ''inner'')),
              (example_base [], SuiteEnd (example_suite ''outer'')),
              (example_base [], SuiteEnd (example_suite ''outer''))]) ''0-0''
               (suite_uid (snd (starts ! i))) = Some (Num (int i + 1))"
    by (simp add: starts_def ends_def example_runner_def)
  then have "1 < length starts \<longrightarrow> suite_depth (run example_humanizer (SpecReporter None)
             [(example_base [], RunnerStart example_runner),
              (example_base [], SuiteStart (example_suite ''outer'')),
              (example_base [], SuiteStart (example_suite ''inner'')),
              (example_base [], SuiteEnd (example_suite ''outer'')),
              (example_base [], SuiteEnd (example_suite ''outer''))]) ''0-0''
               (suite_uid (snd (starts ! 1))) = Some (Num (int 1 + 1))"
    by (rule spec)
  then have c: "suite_depth (run example_humanizer (SpecReporter None)
             [(example_base [], RunnerStart example_runner),
              (example_base [], SuiteStart (example_suite ''outer'')),
              (example_base [], SuiteStart (example_suite ''inner'')),
              (example_base [], SuiteEnd (example_suite ''outer'')),
              (example_base [], SuiteEnd (example_suite ''outer''))]) ''0-0'' ''inner'' = Some (Num 2)"
    by (simp add: starts_def example_suite_def)
  from th have d: "indents (run example_humanizer (SpecReporter None)
             [(example_base [], RunnerStart example_runner),
              (example_base [], SuiteStart (example_suite ''first'')),
              (example_base [], SuiteEnd (example_suite ''first'')),
              (example_base [], SuiteStart (example_suite ''second''))]) ''0-0'' = Some (Num 1)"
    by (simp add: example_runner_def example_suite_def)
  from a b c d show ?thesis by (intro conjI)
qed

subsection \<open>The summary block\<close>

lemma getSummary_loop_spec:
  "getSummary_loop br hz d pre states out shown =
     out @ (if shown
            then concat (map (summary_line br hz d pre False) (filter (\<lambda>e. snd e \<noteq> 0) states))
            else summary_spec br hz states d pre)"
proof (induction states arbitrary: out shown)
  case Nil
  show ?case by (simp add: summary_spec_def)
next
  case (Cons a states)
  obtain state testCount where a: "a = (state, testCount)" by (cases a)
  show ?case
  proof (cases "testCount = 0")
    case True
    with a Cons.IH show ?thesis by (simp add: summary_spec_def)
  next
    case False
    with a Cons.IH [of _ True] show ?thesis
      by (simp add: summary_spec_def summary_line_def Let_def)
  qed
qed

text \<open>
  C5. The summary has one line for each state with a non-zero count, in the order passing,
  pending, failing of the counters record, and the duration stands on the first of these
  lines and on no other. For the counters 3, 0, 1 these are two lines, the duration on
  the passing one.
\<close>

theorem C5_summary_lines:
  "getSummary br hz states d pre = summary_spec br hz states d (or_empty pre)
   \<and> map fst (entries r) = [''passing'', ''pending'', ''failing'']
   \<and> getSummary br hz (entries \<lparr>passing = 3, pending = 0, failing = 1\<rparr>) d (Some p) =
        p @ '' '' @ color br (Some ''green'') ''3'' @ '' '' @ color br (Some ''green'') ''passing''
          @ '' ('' @ hz d @ '')'' @ nl
        @ p @ '' '' @ color br (Some ''fail'') ''1'' @ '' '' @ color br (Some ''fail'') ''failing''
          @ nl"
proof (intro conjI)
  show "getSummary br hz states d pre = summary_spec br hz states d (or_empty pre)"
    by (simp add: getSummary_def getSummary_loop_spec)
  show "map fst (entries r) = [''passing'', ''pending'', ''failing'']"
    by (simp add: entries_def)
  show "getSummary br hz (entries \<lparr>passing = 3, pending = 0, failing = 1\<rparr>) d (Some p) =
        p @ '' '' @ color br (Some ''green'') ''3'' @ '' '' @ color br (Some ''green'') ''passing''
          @ '' ('' @ hz d @ '')'' @ nl
        @ p @ '' '' @ color br (Some ''fail'') ''1'' @ '' '' @ color br (Some ''fail'') ''failing''
          @ nl"
    by (simp add: getSummary_def entries_def or_empty_def getColor_def Let_def
        string_of_nat.simps digit_char_def)
qed

subsection \<open>The cross-worker summary\<close>

text \<open>
  C8, at no worker at all: the banner and \<open>Number of specs: 0\<close> are printed and the epilogue
  is called; the summary is not suppressed.
\<close>

theorem C8_zero_workers_counterexample:
  "printSuitesSummary (example_base []) =
     [Log (nl @ nl @ ''=================================================================='' @ nl
           @ ''Number of specs: 0''),
      Epilogue]"
  by (simp add: printSuitesSummary_def getSuitesSummary_def example_base_def
      string_of_nat.simps digit_char_def)

text \<open>
  C8, amended. With \<open>N\<close> the number of distinct workers in the statistics, the cross-worker
  summary (the banner, \<open>Number of specs: N\<close>, then the epilogue) is printed if and only if
  \<open>N\<close> is not 1; only a run of exactly one worker suppresses it.
\<close>

theorem C8_summary_unless_one_worker:
  "printSuitesSummary br =
     (if card (fst ` set (runners (stats br))) = 1 then []
      else [Log (nl @ nl @ ''=================================================================='' @ nl
                 @ ''Number of specs: '' @ string_of_nat (card (fst ` set (runners (stats br))))),
            Epilogue])"
proof -
  have "length (remdups (map fst (runners (stats br)))) = card (fst ` set (runners (stats br)))"
    by (simp add: length_remdups_card_conv)
  then show ?thesis
    by (simp add: printSuitesSummary_def getSuitesSummary_def Let_def)
qed

subsection \<open>Side effects of the text builders\<close>

text \<open>
  C9, on the first header of a run: \<open>getHeader\<close> writes the worker's identifier and its
  bracketed label into the real-time context, which held neither before.
\<close>

theorem C9_getHeader_writes_context_counterexample:
  "ctx_cid (context_rt (SpecReporter None)) = None
   \<and> preface (context_rt (SpecReporter None)) = None
   \<and> ctx_cid (context_rt (snd (getHeader (example_base [(''0-0'', example_runner_stats [])])
                                  (Some example_runner) (SpecReporter None)))) = Some ''0-0''
   \<and> preface (context_rt (snd (getHeader (example_base [(''0-0'', example_runner_stats [])])
                                  (Some example_runner) (SpecReporter None))))
       = Some ''[chrome 100 Windows #0-0]''"
  by (simp add: getHeader_def example_base_def example_runner_def example_runner_stats_def
      SpecReporter_def Let_def getBrowserCombo_def chrome_caps_def js_or_def truthy_def
      to_str_def or_empty_def js_trim_def is_space_def)

lemma getHeader_state:
  "snd (getHeader br (Some r) s) =
     s\<lparr>context_rt := (context_rt s)
          \<lparr> ctx_cid := Some (runner_cid r),
            preface := (case map_of (runners (stats br)) (runner_cid r) of
                          None \<Rightarrow> preface (context_rt s)
                        | Some rs \<Rightarrow>
                            Some (''['' @ getBrowserCombo (capabilities rs) False
                                  @ '' #'' @ runner_cid r @ '']'')) \<rparr>\<rparr>"
  by (simp add: getHeader_def Let_def split: option.splits)

lemma getHeader_errorCount: "errorCount (snd (getHeader br ro s)) = errorCount s"
  by (simp add: getHeader_def Let_def split: option.splits)

text \<open>
  C9, amended. Building the worker header changes the reporter in the real-time context's
  \<open>cid\<close> and \<open>preface\<close> fields only: it sets them to the runner's identifier and to the
  bracketed label (the label stays as it was when the statistics do not know the worker);
  the error counter and everything else are as before. The test line and the result list
  change nothing but the error counter, which the fail glyph increments; the batched
  suite result changes nothing but the counter and the two context fields. The other
  builders take no reporter to change (\<open>getSummary\<close>, \<open>getFailureList\<close>, \<open>getJobLink\<close>,
  \<open>getSuitesSummary\<close>, \<open>getBrowserCombo\<close>) or only read it (\<open>getSuiteHeader\<close>,
  \<open>getSummaryFooter\<close>).
\<close>

theorem C9_header_changes_only_cid_and_preface:
  "snd (getHeader br (Some r) s) =
     s\<lparr>context_rt := (context_rt s)
          \<lparr> ctx_cid := Some (runner_cid r),
            preface := (case map_of (runners (stats br)) (runner_cid r) of
                          None \<Rightarrow> preface (context_rt s)
                        | Some rs \<Rightarrow>
                            Some (''['' @ getBrowserCombo (capabilities rs) False
                                  @ '' #'' @ runner_cid r @ '']'')) \<rparr>\<rparr>
   \<and> snd (getHeader br None s) = s
   \<and> errorCount (snd (getHeader br ro s)) = errorCount s
   \<and> only_counter s (snd (getTestResult br c u t pre s))
   \<and> only_counter s (snd (getResultList br c suites pre s))
   \<and> builder_frame s (snd (getSuiteResult br hz r s))"
proof (intro conjI)
  show "snd (getHeader br None s) = s"
    by (simp add: getHeader_def)
qed (rule getHeader_state getHeader_errorCount getTestResult_counter getResultList_counter
      getSuiteResult_frame)+

subsection \<open>The listing of suites and tests\<close>

lemma indexOf_from_pos: "0 < i \<Longrightarrow> indexOf_from s pat i \<noteq> 0"
proof (induction s arbitrary: i)
  case Nil
  then show ?case by simp
next
  case (Cons c cs)
  from Cons.prems have "0 < i + 1" by simp
  from Cons.IH [OF this] Cons.prems show ?case by simp
qed

lemma indexOf_zero_iff: "(indexOf s pat = 0) = prefix pat s"
proof (cases s)
  case Nil
  then show ?thesis by (simp add: indexOf_def)
next
  case (Cons c cs)
  have "indexOf_from cs pat (0 + 1) \<noteq> 0" by (rule indexOf_from_pos) simp
  with Cons show ?thesis by (simp add: indexOf_def)
qed

lemma getResultList_tests_acc:
  "getResultList_tests br c u pre ts out s =
     (case getResultList_tests br c u pre ts [] s of
        (Inl e, s') \<Rightarrow> (Inl e, s')
      | (Inr x, s') \<Rightarrow> (Inr (out @ x), s'))"
proof (induction ts arbitrary: out s)
  case Nil
  show ?case by simp
next
  case (Cons a ts)
  obtain testUid t where a: "a = (testUid, t)" by (cases a)
  show ?case
  proof (cases "test_state t = []")
    case True
    with a Cons.IH [of out s] show ?thesis by simp
  next
    case False
    obtain r s' where g: "getTestResult br c u t (Some pre) s = (r, s')"
      by (cases "getTestResult br c u t (Some pre) s")
    show ?thesis
    proof (cases r)
      case (Inl e)
      with a False g show ?thesis by simp
    next
      case (Inr line)
      with a False g Cons.IH [of "out @ line @ nl" s'] Cons.IH [of "line @ nl" s']
      show ?thesis by (simp split: prod.splits sum.splits)
    qed
  qed
qed

lemma getResultList_suites_acc:
  "getResultList_suites br c pre suites out s =
     (case getResultList_suites br c pre suites [] s of
        (Inl e, s') \<Rightarrow> (Inl e, s')
      | (Inr x, s') \<Rightarrow> (Inr (out @ x), s'))"
proof (induction suites arbitrary: out s)
  case Nil
  show ?case by simp
next
  case (Cons a suites)
  obtain specUid spec where a: "a = (specUid, spec)" by (cases a)
  show ?case
  proof (cases "indexOf specUid before_all = 0")
    case True
    with a Cons.IH [of out s] show ?thesis by simp
  next
    case False
    show ?thesis
    proof (cases "indent s c specUid")
      case (Inl e)
      with a False show ?thesis by simp
    next
      case (Inr ind)
      define hd_line where "hd_line = pre @ '' '' @ ind @ stats_title spec @ nl"
      obtain r s' where g: "getResultList_tests br c specUid pre (stats_tests spec) [] s = (r, s')"
        by (cases "getResultList_tests br c specUid pre (stats_tests spec) [] s")
      note t1 = getResultList_tests_acc [of br c specUid pre "stats_tests spec" "out @ hd_line" s]
      note t2 = getResultList_tests_acc [of br c specUid pre "stats_tests spec" "hd_line" s]
      show ?thesis
      proof (cases r)
        case (Inl e)
        with a False Inr g t1 t2 show ?thesis by (simp add: hd_line_def)
      next
        case r: (Inr x)
        with a False Inr g t1 t2
          Cons.IH [of "out @ hd_line @ x @ js_trim pre @ nl" s']
          Cons.IH [of "hd_line @ x @ js_trim pre @ nl" s']
        show ?thesis by (simp add: hd_line_def split: prod.splits sum.splits)
      qed
    qed
  qed
qed

lemma getResultList_skip:
  assumes "prefix before_all uid"
  shows "getResultList br c ((uid, su) # rest) pre s = getResultList br c rest pre s"
  using assms by (simp add: getResultList_def indexOf_zero_iff)

lemma getResultList_filter:
  "getResultList_suites br c pre suites out s =
     getResultList_suites br c pre (filter (\<lambda>x. \<not> prefix before_all (fst x)) suites) out s"
proof (induction suites arbitrary: out s)
  case Nil
  show ?case by simp
next
  case (Cons a suites)
  obtain specUid spec where a: "a = (specUid, spec)" by (cases a)
  show ?case
  proof (cases "prefix before_all specUid")
    case True
    with a Cons.IH [of out s] show ?thesis by (simp add: indexOf_zero_iff)
  next
    case False
    with a Cons.IH show ?thesis
      by (simp add: indexOf_zero_iff split: sum.splits prod.splits)
  qed
qed

lemma getResultList_render:
  assumes u: "\<not> prefix before_all uid"
    and i: "indent s c uid = Inr ind"
    and t: "getResultList_tests br c uid (or_empty pre) (stats_tests su) [] s = (Inr tests, s1)"
    and r: "getResultList br c rest pre s1 = (Inr others, s2)"
  shows "getResultList br c ((uid, su) # rest) pre s =
           (Inr (or_empty pre @ '' '' @ ind @ stats_title su @ nl
                 @ tests
                 @ js_trim (or_empty pre) @ nl
                 @ others), s2)"
proof -
  define p where "p = or_empty pre"
  define hd_line where "hd_line = p @ '' '' @ ind @ stats_title su @ nl"
  from t have t': "getResultList_tests br c uid p (stats_tests su) hd_line s = (Inr (hd_line @ tests), s1)"
    using getResultList_tests_acc [of br c uid p "stats_tests su" hd_line s]
    by (simp add: p_def)
  from r have r': "getResultList_suites br c p rest (hd_line @ tests @ js_trim p @ nl) s1
                    = (Inr (hd_line @ tests @ js_trim p @ nl @ others), s2)"
    using getResultList_suites_acc [of br c p rest "hd_line @ tests @ js_trim p @ nl" s1]
    by (simp add: getResultList_def p_def)
  from u i t' r' show ?thesis
    by (simp add: getResultList_def indexOf_zero_iff p_def [symmetric] hd_line_def [symmetric])
       (simp add: hd_line_def)
qed

text \<open>
  C6, on a before-all suite that holds a passed test: the test alone renders as the line
  \<open>[p]   ok works\<close>, but the listing of the suite is empty, so the test is not rendered.
\<close>

theorem C6_before_all_tests_dropped_counterexample:
  "getResultList_tests (example_base []) ''0-0'' hook_uid ''[p]'' (stats_tests hook_suite) []
       example_reporter
     = (Inr (''[p]   ok works'' @ nl), example_reporter)
   \<and> getResultList (example_base []) ''0-0'' [(hook_uid, hook_suite)] (Some ''[p]'')
       example_reporter
     = (Inr [], example_reporter)"
  by (simp add: getResultList_def getTestResult_def getSymbol_def getColor_def indent_def
      indexOf_def hook_uid_def hook_suite_def example_reporter_def example_test_def
      example_base_def before_all_def or_empty_def to_str_def SpecReporter_def Let_def)

text \<open>
  C6, amended. In the listing a suite whose identifier begins with the before-all marker
  is skipped whole: its header line, its tests (also when it has tests) and its separator
  line are left out, so the listing is that of the suites without the marker. A suite
  without the marker is rendered in full: its header line, the lines of its tests, the
  separator line, and then the rest of the listing.
\<close>

theorem C6_before_all_suite_skipped:
  "getResultList br c suites pre s =
     getResultList br c (filter (\<lambda>x. \<not> prefix before_all (fst x)) suites) pre s
   \<and> (prefix before_all uid \<longrightarrow>
        getResultList br c ((uid, su) # rest) pre s = getResultList br c rest pre s)
   \<and> (\<not> prefix before_all uid
        \<and> indent s c uid = Inr ind
        \<and> getResultList_tests br c uid (or_empty pre) (stats_tests su) [] s = (Inr tests, s1)
        \<and> getResultList br c rest pre s1 = (Inr others, s2) \<longrightarrow>
        getResultList br c ((uid, su) # rest) pre s =
          (Inr (or_empty pre @ '' '' @ ind @ stats_title su @ nl
                @ tests
                @ js_trim (or_empty pre) @ nl
                @ others), s2))"
proof (intro conjI impI)
  show "getResultList br c suites pre s =
     getResultList br c (filter (\<lambda>x. \<not> prefix before_all (fst x)) suites) pre s"
    unfolding getResultList_def by (rule getResultList_filter)
next
  assume "prefix before_all uid"
  then show "getResultList br c ((uid, su) # rest) pre s = getResultList br c rest pre s"
    by (rule getResultList_skip)
next
  assume h: "\<not> prefix before_all uid
        \<and> indent s c uid = Inr ind
        \<and> getResultList_tests br c uid (or_empty pre) (stats_tests su) [] s = (Inr tests, s1)
        \<and> getResultList br c rest pre s1 = (Inr others, s2)"
  from h have h1: "\<not> prefix before_all uid" by (rule conjunct1)
  from h have h2: "indent s c uid = Inr ind" by (elim conjE)
  from h have h3: "getResultList_tests br c uid (or_empty pre) (stats_tests su) [] s = (Inr tests, s1)"
    by (elim conjE)
  from h have h4: "getResultList br c rest pre s1 = (Inr others, s2)" by (elim conjE)
  show "getResultList br c ((uid, su) # rest) pre s =
          (Inr (or_empty pre @ '' '' @ ind @ stats_title su @ nl
                @ tests
                @ js_trim (or_empty pre) @ nl
                @ others), s2)"
    by (rule getResultList_render [OF h1 h2 h3 h4])
qed

theorem C6_before_all_suite_skipped_witness:
  "getResultList (example_base []) ''0-0'' [(hook_uid, hook_suite), (''login0'', login_suite)]
       (Some ''[p]'') example_reporter
     = (Inr (''[p] login'' @ nl @ ''[p]   ok opens'' @ nl @ ''[p]'' @ nl), example_reporter)"
proof -
  have marked: "prefix before_all hook_uid"
    by (simp add: hook_uid_def)
  have unmarked: "\<not> prefix before_all ''login0''"
    by (simp add: before_all_def)
  have ind: "indent example_reporter ''0-0'' ''login0'' = Inr []"
    by (simp add: indent_def example_reporter_def hook_uid_def before_all_def)
  have tests: "getResultList_tests (example_base []) ''0-0'' ''login0'' (or_empty (Some ''[p]''))
                 (stats_tests login_suite) [] example_reporter
               = (Inr (''[p]   ok opens'' @ nl), example_reporter)"
    by (simp add: login_suite_def example_test_def getTestResult_def ind getSymbol_def
        getColor_def example_base_def or_empty_def to_str_def Let_def)
  have rest: "getResultList (example_base []) ''0-0'' [] (Some ''[p]'') example_reporter
               = (Inr [], example_reporter)"
    by (simp add: getResultList_def)
  from C6_before_all_suite_skipped [of "example_base []" "''0-0''" "[]" "Some ''[p]''"
      example_reporter hook_uid hook_suite "[(''login0'', login_suite)]"] marked
  have skip: "getResultList (example_base []) ''0-0''
                [(hook_uid, hook_suite), (''login0'', login_suite)] (Some ''[p]'') example_reporter
              = getResultList (example_base []) ''0-0'' [(''login0'', login_suite)] (Some ''[p]'')
                  example_reporter"
    by blast
  from C6_before_all_suite_skipped [of "example_base []" "''0-0''" "[]" "Some ''[p]''"
      example_reporter "''login0''" login_suite "[]" "[]" "''[p]   ok opens'' @ nl"
      example_reporter "[]" example_reporter] unmarked ind tests rest
  have "getResultList (example_base []) ''0-0'' [(''login0'', login_suite)] (Some ''[p]'')
          example_reporter
        = (Inr (or_empty (Some ''[p]'') @ '' '' @ [] @ stats_title login_suite @ nl
                @ (''[p]   ok opens'' @ nl)
                @ js_trim (or_empty (Some ''[p]'')) @ nl
                @ []), example_reporter)"
    by blast
  with skip show ?thesis
    by (simp add: or_empty_def login_suite_def js_trim_def is_space_def)
qed

subsection \<open>The fail counter of the symbol resolver\<close>

lemma getSymbols_fail:
  "getSymbols br (replicate k ''fail'') s =
     (map (\<lambda>i. string_of_nat i @ '')'') [errorCount s + 1 ..< errorCount s + 1 + k],
      s\<lparr>errorCount := errorCount s + k\<rparr>)"
proof (induction k arbitrary: s)
  case 0
  show ?case by simp
next
  case (Suc k)
  have "[errorCount s + 1 ..< errorCount s + 1 + Suc k]
        = (errorCount s + 1) # [errorCount s + 2 ..< errorCount s + 2 + k]"
    by (simp add: upt_rec)
  then show ?case
    by (simp add: Suc getSymbol_def Let_def)
qed

lemma getSuiteResult_resets:
  "fst (getSuiteResult br hz r (s\<lparr>errorCount := n\<rparr>)) = fst (getSuiteResult br hz r s)"
  by (simp add: getSuiteResult_def Let_def split: option.splits)

text \<open>Where the batched block is rendered, it is rendered from the counter 0.\<close>

lemma getSuiteResult_from_zero:
  assumes "map_of (runners (stats br)) (runner_cid r) = Some rs"
    and "map_of (runner_spec_stats rs) (getSpecHash (stats br) (Some r)) = Some spec"
    and "spec_suites spec \<noteq> []"
  shows "getSuiteResult br hz r s = getSuiteResult br hz r (s\<lparr>errorCount := 0\<rparr>)"
  using assms by (simp add: getSuiteResult_def Let_def)

lemma getTestResult_errorCount:
  assumes "getTestResult br c u t pre s = (Inr line, s')"
  shows "errorCount s' = errorCount s + (if test_state t = ''fail'' then 1 else 0)"
proof (cases "indent s c u")
  case (Inl e)
  with assms show ?thesis by (simp add: getTestResult_def)
next
  case (Inr ind)
  with assms have "s' = snd (getSymbol br (test_state t) s)"
    by (simp add: getTestResult_def Let_def split_beta)
  then show ?thesis by (simp add: getSymbol_def Let_def)
qed

lemma fails_in_Cons:
  "fails_in ((testUid, t) # ts) = (if test_state t = ''fail'' then 1 else 0) + fails_in ts"
  by (simp add: fails_in_def)

lemma getResultList_tests_errorCount:
  assumes "getResultList_tests br c u pre ts out s = (Inr out', s')"
  shows "errorCount s' = errorCount s + fails_in ts"
  using assms
proof (induction ts arbitrary: out s)
  case Nil
  then show ?case by (simp add: fails_in_def)
next
  case (Cons a ts)
  obtain testUid t where a: "a = (testUid, t)" by (cases a)
  show ?case
  proof (cases "test_state t = []")
    case True
    with a Cons.prems have "getResultList_tests br c u pre ts out s = (Inr out', s')" by simp
    from Cons.IH [OF this] a True show ?thesis by (simp add: fails_in_Cons)
  next
    case False
    obtain x s1 where g: "getTestResult br c u t (Some pre) s = (x, s1)"
      by (cases "getTestResult br c u t (Some pre) s")
    show ?thesis
    proof (cases x)
      case (Inl e)
      with a False g Cons.prems show ?thesis by simp
    next
      case (Inr line)
      with a False g Cons.prems
      have "getResultList_tests br c u pre ts (out @ line @ nl) s1 = (Inr out', s')" by simp
      from Cons.IH [OF this] getTestResult_errorCount [of br c u t "Some pre" s line s1] g Inr a
      show ?thesis by (simp add: fails_in_Cons)
    qed
  qed
qed

lemma fails_listed_Cons:
  "fails_listed ((uid, su) # rest) =
     (if prefix before_all uid then 0 else fails_in (stats_tests su)) + fails_listed rest"
  by (simp add: fails_listed_def)

lemma getResultList_suites_errorCount:
  assumes "getResultList_suites br c pre suites out s = (Inr out', s')"
  shows "errorCount s' = errorCount s + fails_listed suites"
  using assms
proof (induction suites arbitrary: out s)
  case Nil
  then show ?case by (simp add: fails_listed_def)
next
  case (Cons a suites)
  obtain specUid spec where a: "a = (specUid, spec)" by (cases a)
  show ?case
  proof (cases "prefix before_all specUid")
    case True
    with a Cons.prems have "getResultList_suites br c pre suites out s = (Inr out', s')"
      by (simp add: indexOf_zero_iff)
    from Cons.IH [OF this] a True show ?thesis by (simp add: fails_listed_Cons)
  next
    case False
    show ?thesis
    proof (cases "indent s c specUid")
      case (Inl e)
      with a False Cons.prems show ?thesis by (simp add: indexOf_zero_iff)
    next
      case (Inr ind)
      define out1 where "out1 = out @ pre @ '' '' @ ind @ stats_title spec @ nl"
      obtain x s1 where g: "getResultList_tests br c specUid pre (stats_tests spec) out1 s = (x, s1)"
        by (cases "getResultList_tests br c specUid pre (stats_tests spec) out1 s")
      show ?thesis
      proof (cases x)
        case (Inl e)
        with a False Inr g Cons.prems show ?thesis
          by (simp add: indexOf_zero_iff out1_def)
      next
        case x: (Inr out2)
        with a False Inr g Cons.prems
        have "getResultList_suites br c pre suites (out2 @ js_trim pre @ nl) s1 = (Inr out', s')"
          by (simp add: indexOf_zero_iff out1_def)
        from Cons.IH [OF this] getResultList_tests_errorCount [of br c specUid pre "stats_tests spec" out1 s out2 s1]
          g x a False
        show ?thesis by (simp add: fails_listed_Cons)
      qed
    qed
  qed
qed

lemma getSuiteResult_errorCount:
  assumes rs: "map_of (runners (stats br)) (runner_cid r) = Some rs"
    and spec: "map_of (runner_spec_stats rs) (getSpecHash (stats br) (Some r)) = Some spec"
    and suites: "spec_suites spec \<noteq> []"
    and ok: "getSuiteResult br hz r s = (Inr txt, s')"
  shows "errorCount s' = fails_listed (spec_suites spec)"
proof -
  let ?pre = "''['' @ getBrowserCombo (capabilities rs) False @ '' #'' @ runner_cid r @ '']''"
  define s0 where "s0 = s\<lparr>errorCount := 0\<rparr>"
  obtain x s1 where h: "getHeader br (Some r) s0 = (x, s1)"
    by (cases "getHeader br (Some r) s0")
  obtain y s2 where l: "getResultList br (runner_cid r) (spec_suites spec) (Some ?pre) s1 = (y, s2)"
    by (cases "getResultList br (runner_cid r) (spec_suites spec) (Some ?pre) s1")
  from getHeader_errorCount [of br "Some r" s0] h have c1: "errorCount s1 = 0"
    by (simp add: s0_def)
  from ok rs spec suites h l obtain header resultList
    where "x = Inr header" and y: "y = Inr resultList" and s': "s' = s2"
    by (auto simp add: getSuiteResult_def Let_def s0_def [symmetric] split: sum.splits)
  have "errorCount s2 = errorCount s1 + fails_listed (spec_suites spec)"
  proof (rule getResultList_suites_errorCount)
    from l y show "getResultList_suites br (runner_cid r) ?pre (spec_suites spec) [] s1
                    = (Inr resultList, s2)"
      by (simp add: getResultList_def or_empty_def)
  qed
  with c1 s' show ?thesis by simp
qed

text \<open>
  C4. From an error counter reset to 0, \<open>k\<close> calls of \<open>getSymbol\<close> with the state
  \<open>fail\<close> give the glyphs \<open>1)\<close>, \<open>2)\<close>, ..., \<open>k)\<close> and leave the counter at \<open>k\<close>, each
  call adding one; a call with any other state leaves the reporter as it was. The batched
  result block of a worker, where it is rendered (the statistics know the worker and its
  spec, and the spec has suites), sets the counter to 0 before its header and listing: the
  block is what it would be from a counter at 0, whatever the count reached before, and
  the counter after the block is the number of failed tests the block lists.
\<close>

theorem C4_fail_glyphs:
  "getSymbols br (replicate k ''fail'') (s\<lparr>errorCount := 0\<rparr>)
     = (map (\<lambda>i. string_of_nat i @ '')'') [1 ..< Suc k], s\<lparr>errorCount := k\<rparr>)
   \<and> errorCount (snd (getSymbol br ''fail'' s)) = errorCount s + 1
   \<and> (st \<noteq> ''fail'' \<longrightarrow> snd (getSymbol br st s) = s)
   \<and> fst (getSuiteResult br hz r (s\<lparr>errorCount := n\<rparr>)) = fst (getSuiteResult br hz r s)
   \<and> (map_of (runners (stats br)) (runner_cid r) = Some rs
        \<and> map_of (runner_spec_stats rs) (getSpecHash (stats br) (Some r)) = Some spec
        \<and> spec_suites spec \<noteq> [] \<longrightarrow>
        getSuiteResult br hz r s = getSuiteResult br hz r (s\<lparr>errorCount := 0\<rparr>)
        \<and> (getSuiteResult br hz r s = (Inr txt, s') \<longrightarrow>
             errorCount s' = fails_listed (spec_suites spec)))"
proof (intro conjI impI)
  show "getSymbols br (replicate k ''fail'') (s\<lparr>errorCount := 0\<rparr>)
     = (map (\<lambda>i. string_of_nat i @ '')'') [1 ..< Suc k], s\<lparr>errorCount := k\<rparr>)"
    by (simp add: getSymbols_fail)
  show "errorCount (snd (getSymbol br ''fail'' s)) = errorCount s + 1"
    by (simp add: getSymbol_def Let_def)
  show "fst (getSuiteResult br hz r (s\<lparr>errorCount := n\<rparr>)) = fst (getSuiteResult br hz r s)"
    by (rule getSuiteResult_resets)
next
  assume "st \<noteq> ''fail''"
  then show "snd (getSymbol br st s) = s"
    by (simp add: getSymbol_def)
next
  assume h: "map_of (runners (stats br)) (runner_cid r) = Some rs
        \<and> map_of (runner_spec_stats rs) (getSpecHash (stats br) (Some r)) = Some spec
        \<and> spec_suites spec \<noteq> []"
  from h have h1: "map_of (runners (stats br)) (runner_cid r) = Some rs" by (rule conjunct1)
  from h have h2: "map_of (runner_spec_stats rs) (getSpecHash (stats br) (Some r)) = Some spec"
    by (elim conjE)
  from h have h3: "spec_suites spec \<noteq> []" by (elim conjE)
  show "getSuiteResult br hz r s = getSuiteResult br hz r (s\<lparr>errorCount := 0\<rparr>)"
    by (rule getSuiteResult_from_zero [OF h1 h2 h3])
  assume "getSuiteResult br hz r s = (Inr txt, s')"
  then show "errorCount s' = fails_listed (spec_suites spec)"
    by (rule getSuiteResult_errorCount [OF h1 h2 h3])
qed

theorem C4_fail_glyphs_witness:
  "getSymbols (example_base []) (replicate 3 ''fail'') ((SpecReporter None)\<lparr>errorCount := 0\<rparr>)
     = ([''1)'', ''2)'', ''3)''], (SpecReporter None)\<lparr>errorCount := 3\<rparr>)
   \<and> snd (getSymbol (example_base []) ''pass'' (SpecReporter None)) = SpecReporter None
   \<and> errorCount checkout_reporter = 7
   \<and> fst (getSuiteResult checkout_base example_humanizer example_runner checkout_reporter)
       = Inr (''------------------------------------------------------------------'' @ nl
            @ ''[chrome 100 Windows #0-0] Session ID: abc'' @ nl
            @ ''[chrome 100 Windows #0-0] Spec: /spec/a.js'' @ nl
            @ ''[chrome 100 Windows #0-0] Running: chrome (v100) on Windows'' @ nl
            @ ''[chrome 100 Windows #0-0]'' @ nl
            @ ''[chrome 100 Windows #0-0] checkout'' @ nl
            @ ''[chrome 100 Windows #0-0]   1) pays'' @ nl
            @ ''[chrome 100 Windows #0-0]   ok ships'' @ nl
            @ ''[chrome 100 Windows #0-0]   2) bills'' @ nl
            @ ''[chrome 100 Windows #0-0]'' @ nl
            @ ''[chrome 100 Windows #0-0]'' @ nl
            @ ''[chrome 100 Windows #0-0] 1 passing (1500ms)'' @ nl
            @ ''[chrome 100 Windows #0-0] 2 failing'' @ nl
            @ ''[chrome 100 Windows #0-0]'' @ nl)
   \<and> errorCount (snd (getSuiteResult checkout_base example_humanizer example_runner checkout_reporter)) = 2"
proof -
  have glyphs: "getSymbols (example_base []) (replicate 3 ''fail'') ((SpecReporter None)\<lparr>errorCount := 0\<rparr>)
     = ([''1)'', ''2)'', ''3)''], (SpecReporter None)\<lparr>errorCount := 3\<rparr>)
   \<and> snd (getSymbol (example_base []) ''pass'' (SpecReporter None)) = SpecReporter None"
    using C4_fail_glyphs [of "example_base []" 3 "SpecReporter None" "''pass''"
      example_humanizer example_runner 0]
    by (simp add: upt_rec string_of_nat.simps digit_char_def)
  have before: "errorCount checkout_reporter = 7"
    by (simp add: checkout_reporter_def)
  have rendered: "fst (getSuiteResult checkout_base example_humanizer example_runner checkout_reporter)
       = Inr (''------------------------------------------------------------------'' @ nl
            @ ''[chrome 100 Windows #0-0] Session ID: abc'' @ nl
            @ ''[chrome 100 Windows #0-0] Spec: /spec/a.js'' @ nl
            @ ''[chrome 100 Windows #0-0] Running: chrome (v100) on Windows'' @ nl
            @ ''[chrome 100 Windows #0-0]'' @ nl
            @ ''[chrome 100 Windows #0-0] checkout'' @ nl
            @ ''[chrome 100 Windows #0-0]   1) pays'' @ nl
            @ ''[chrome 100 Windows #0-0]   ok ships'' @ nl
            @ ''[chrome 100 Windows #0-0]   2) bills'' @ nl
            @ ''[chrome 100 Windows #0-0]'' @ nl
            @ ''[chrome 100 Windows #0-0]'' @ nl
            @ ''[chrome 100 Windows #0-0] 1 passing (1500ms)'' @ nl
            @ ''[chrome 100 Windows #0-0] 2 failing'' @ nl
            @ ''[chrome 100 Windows #0-0]'' @ nl)"
    by (simp add: getSuiteResult_def checkout_base_def example_base_def example_runner_stats_def
        example_runner_def checkout_reporter_def SpecReporter_def getHeader_def
        getBrowserCombo_def chrome_caps_def js_or_def truthy_def to_str_def or_empty_def
        js_trim_def is_space_def specs_str_def rule_line_def getResultList_def indexOf_def
        before_all_def indent_def checkout_suite_def example_test_def getTestResult_def
        getSymbol_def getColor_def string_of_nat.simps digit_char_def getSummary_def
        states_of_def entries_def example_humanizer_def getFailureList_def getJobLink_def
        Let_def)
  then obtain blk s' where both: "getSuiteResult checkout_base example_humanizer example_runner checkout_reporter = (Inr blk, s')"
    by (cases "getSuiteResult checkout_base example_humanizer example_runner checkout_reporter") simp
  have h1: "map_of (runners (stats checkout_base)) (runner_cid example_runner) = Some (example_runner_stats [(''checkout0'', checkout_suite)])"
    by (simp add: checkout_base_def example_base_def example_runner_def)
  have h2: "map_of (runner_spec_stats (example_runner_stats [(''checkout0'', checkout_suite)]))
              (getSpecHash (stats checkout_base) (Some example_runner))
            = Some \<lparr> spec_suites = [(''checkout0'', checkout_suite)], spec_duration = 1500 \<rparr>"
    by (simp add: checkout_base_def example_base_def example_runner_stats_def)
  have h3: "spec_suites \<lparr> spec_suites = [(''checkout0'', checkout_suite)], spec_duration = 1500 \<rparr> \<noteq> []"
    by simp
  from C4_fail_glyphs [of checkout_base 0 checkout_reporter "''pass''" example_humanizer
      example_runner 0 "example_runner_stats [(''checkout0'', checkout_suite)]" "\<lparr> spec_suites = [(''checkout0'', checkout_suite)], spec_duration = 1500 \<rparr>" blk s']
  have "map_of (runners (stats checkout_base)) (runner_cid example_runner) = Some (example_runner_stats [(''checkout0'', checkout_suite)])
        \<and> map_of (runner_spec_stats (example_runner_stats [(''checkout0'', checkout_suite)]))
              (getSpecHash (stats checkout_base) (Some example_runner)) = Some \<lparr> spec_suites = [(''checkout0'', checkout_suite)], spec_duration = 1500 \<rparr>
        \<and> spec_suites \<lparr> spec_suites = [(''checkout0'', checkout_suite)], spec_duration = 1500 \<rparr> \<noteq> [] \<longrightarrow>
        getSuiteResult checkout_base example_humanizer example_runner checkout_reporter = getSuiteResult checkout_base example_humanizer example_runner
                (checkout_reporter\<lparr>errorCount := 0\<rparr>)
        \<and> (getSuiteResult checkout_base example_humanizer example_runner checkout_reporter = (Inr blk, s') \<longrightarrow> errorCount s' = fails_listed (spec_suites \<lparr> spec_suites = [(''checkout0'', checkout_suite)], spec_duration = 1500 \<rparr>))"
    by (elim conjE)
  moreover have "map_of (runners (stats checkout_base)) (runner_cid example_runner) = Some (example_runner_stats [(''checkout0'', checkout_suite)])
        \<and> map_of (runner_spec_stats (example_runner_stats [(''checkout0'', checkout_suite)]))
              (getSpecHash (stats checkout_base) (Some example_runner)) = Some \<lparr> spec_suites = [(''checkout0'', checkout_suite)], spec_duration = 1500 \<rparr>
        \<and> spec_suites \<lparr> spec_suites = [(''checkout0'', checkout_suite)], spec_duration = 1500 \<rparr> \<noteq> []"
    by (intro conjI h1 h2 h3)
  ultimately have "getSuiteResult checkout_base example_humanizer example_runner checkout_reporter = getSuiteResult checkout_base example_humanizer example_runner
                (checkout_reporter\<lparr>errorCount := 0\<rparr>)
        \<and> (getSuiteResult checkout_base example_humanizer example_runner checkout_reporter = (Inr blk, s') \<longrightarrow> errorCount s' = fails_listed (spec_suites \<lparr> spec_suites = [(''checkout0'', checkout_suite)], spec_duration = 1500 \<rparr>))"
    by (rule mp)
  then have imp: "getSuiteResult checkout_base example_humanizer example_runner checkout_reporter = (Inr blk, s') \<longrightarrow> errorCount s' = fails_listed (spec_suites \<lparr> spec_suites = [(''checkout0'', checkout_suite)], spec_duration = 1500 \<rparr>)"
    by (rule conjunct2)
  from imp both have "errorCount s' = fails_listed (spec_suites \<lparr> spec_suites = [(''checkout0'', checkout_suite)], spec_duration = 1500 \<rparr>)"
    by (rule mp)
  then have "errorCount s' = 2"
    by (simp add: fails_listed_def fails_in_def checkout_suite_def example_test_def before_all_def)
  with both have after: "errorCount (snd (getSuiteResult checkout_base example_humanizer example_runner checkout_reporter)) = 2"
    by simp
  from glyphs have g1: "getSymbols (example_base []) (replicate 3 ''fail'') ((SpecReporter None)\<lparr>errorCount := 0\<rparr>)
     = ([''1)'', ''2)'', ''3)''], (SpecReporter None)\<lparr>errorCount := 3\<rparr>)"
    by (rule conjunct1)
  from glyphs have g2: "snd (getSymbol (example_base []) ''pass'' (SpecReporter None)) = SpecReporter None"
    by (rule conjunct2)
  from g1 g2 before rendered after show ?thesis by (intro conjI)
qed

end
